theory Spec2Isabelle
  imports Main "HOL-Library.Char_ord" "HOL-Library.List_Lexorder" "HOL-Library.Multiset"
begin

section \<open>Data model\<close>

text \<open>
  Task ids are Python ints (\<open>task_id_list (list of int)\<close>). Status codes and render
  types are Python strings such as \<open>'25'\<close>, \<open>'45'\<close> and \<open>'Rebuild'\<close>.
\<close>

type_synonym task_id = int

text \<open>
  The exceptions the two modules raise. \<open>DownloadFailed\<close> is raised with two message
  formats: \<open>'%s Download failed' % output\<close> inside a transfer, and
  \<open>'Finally tasks download failed: %s' % str(download_failed_list)\<close> after the loop of
  \<open>_auto_download_tool\<close>; the payload of each message is kept.
\<close>

datatype download_failed =
    Output_failed string
  | Finally_failed "task_id list"

datatype error =
    DownloadFailed download_failed
  | AssertionError
  | PyException string
  | RayvisionError int string
  | UnsupportedDatabaseError string
  | KeyError string
  | TypeError string
  | ValueError string

text \<open>
  Python values that reach the uploader through keyword arguments, and a dictionary of
  keyword arguments as an association list with distinct keys.
\<close>

datatype py_value = PyNone | PyBool bool | PyInt int | PyStr string

type_synonym kwargs = "(string \<times> py_value) list"

text \<open>
  The external collaborators (\<open>dayan_sync.manage\<close>, \<open>dayan_sync.transfer\<close>,
  \<open>dayan_sync.utils\<close>, the file system) are parameters of the model. They act on a world
  \<open>'w\<close> that the orchestrator cannot see: every call may change it, so two polls of one
  cycle may answer differently. \<open>'s\<close> is the type of the value \<open>get_task_status\<close>
  returns. \<open>time_temp p\<close> is \<open>os.path.split(os.path.dirname(p))[-1]\<close>.
  \<open>run_cmd\<close> stands for \<open>run_cmd (self.trans.create_cmd cmd_params ...)\<close>: the
  command is determined by \<open>cmd_params\<close> and by arguments fixed for the whole call, and
  its result is the exit code. \<open>run_upload_cmd\<close> is the same for \<open>upload_asset\<close>, where
  the command is made from \<open>cmd_params\<close>, the path of the ini file (or \<open>None\<close>) and the
  keyword arguments of the call (\<open>engine_type\<close>, \<open>server_ip\<close>, \<open>server_port\<close>,
  \<open>network_mode\<close>, \<open>is_record\<close>, \<open>redis_flag\<close>, \<open>redis_obj\<close>).
\<close>

record ('w, 's) collaborators =
  is_task_end :: "task_id \<Rightarrow> 'w \<Rightarrow> bool \<times> 'w"
  get_task_status :: "task_id list \<Rightarrow> 'w \<Rightarrow> 's \<times> 'w"
  get_sub_status :: "'s \<Rightarrow> string list"
  get_render_type :: "'s \<Rightarrow> string list"
  output_file_names :: "'s \<Rightarrow> string list"
  run_cmd :: "string list \<Rightarrow> 'w \<Rightarrow> int \<times> 'w"
  run_upload_cmd :: "py_value list \<Rightarrow> string option \<Rightarrow> kwargs \<Rightarrow> 'w \<Rightarrow> int \<times> 'w"
  path_exists :: "string \<Rightarrow> 'w \<Rightarrow> bool"
  basename :: "string \<Rightarrow> string"
  time_temp :: "string \<Rightarrow> string"

text \<open>
  The calls made are recorded, in order, in a trace that is threaded with the world. An
  event is written when the call returns and carries what it returned:
  \<open>IsTaskEnd t b\<close> is a call \<open>is_task_end(t)\<close> that returned \<open>b\<close>, \<open>GetTaskStatus ts\<close> a
  call \<open>get_task_status(ts)\<close>, \<open>RunCmd cmd_params code\<close> a run of the transfer
  executable that exited with \<open>code\<close>, \<open>RunUploadCmd cmd_params db_ini_path code\<close> such
  a run made by \<open>upload_asset\<close>, \<open>CreateDbIni p\<close> the writing of the ini file \<open>p\<close>. The two transfer routines of the downloader are recorded as well:
  \<open>RunDownload ts r\<close> is a call \<open>_run_download(ts, ...)\<close> and \<open>RunCcDownload ts r\<close> a
  call \<open>_run_cc_download(ts, ...)\<close> that returned (\<open>r = Inr ()\<close>) or raised
  (\<open>r = Inl e\<close>); the events of the commands they ran stand before it.
\<close>

datatype event =
    IsTaskEnd task_id bool
  | GetTaskStatus "task_id list"
  | RunCmd "string list" int
  | RunDownload "task_id list" "error + unit"
  | RunCcDownload "task_id list" "error + unit"
  | RunUploadCmd "py_value list" "string option" int
  | CreateDbIni string

type_synonym 'w state = "'w \<times> event list"

definition call_is_task_end ::
  "('w, 's) collaborators \<Rightarrow> task_id \<Rightarrow> 'w state \<Rightarrow> bool \<times> 'w state" where
  "call_is_task_end env task st =
     (case is_task_end env task (fst st) of
        (b, w') \<Rightarrow> (b, (w', snd st @ [IsTaskEnd task b])))"

definition call_get_task_status ::
  "('w, 's) collaborators \<Rightarrow> task_id list \<Rightarrow> 'w state \<Rightarrow> 's \<times> 'w state" where
  "call_get_task_status env tasks st =
     (case get_task_status env tasks (fst st) of
        (s, w') \<Rightarrow> (s, (w', snd st @ [GetTaskStatus tasks])))"

definition call_run_cmd ::
  "('w, 's) collaborators \<Rightarrow> string list \<Rightarrow> 'w state \<Rightarrow> int \<times> 'w state" where
  "call_run_cmd env cmd_params st =
     (case run_cmd env cmd_params (fst st) of
        (code, w') \<Rightarrow> (code, (w', snd st @ [RunCmd cmd_params code])))"

definition call_run_upload_cmd ::
  "('w, 's) collaborators \<Rightarrow> py_value list \<Rightarrow> string option \<Rightarrow> kwargs \<Rightarrow> 'w state
     \<Rightarrow> int \<times> 'w state" where
  "call_run_upload_cmd env cmd_params db_ini_path kw st =
     (case run_upload_cmd env cmd_params db_ini_path kw (fst st) of
        (result, w') \<Rightarrow> (result, (w', snd st @ [RunUploadCmd cmd_params db_ini_path result])))"

section \<open>upload.py\<close>

subsection \<open>The retry loop of \<open>upload_config\<close>\<close>

text \<open>
  \<^verbatim>\<open>
  times = 0
  while True:
      result = run_cmd(cmd, flag=True, logger=self.logger)
      if result:
          if times == 9:
              raise RayvisionError(20004, "%s upload failed" % config_path)
          times += 1
      else:
          break
  \<close>
  The loop has no bound of its own, so it is a partial function: \<open>None\<close> is a loop that
  never ends. The counter \<open>times\<close> is written \<open>times'\<close>.
\<close>

partial_function (option) upload_config_retry ::
  "('w, 's) collaborators \<Rightarrow> string list \<Rightarrow> string \<Rightarrow> nat \<Rightarrow> 'w state
     \<Rightarrow> ((error + unit) \<times> 'w state) option" where
  "upload_config_retry env cmd config_path times' st =
     (case call_run_cmd env cmd st of
        (result, st') \<Rightarrow>
          if result \<noteq> 0 then
            (if times' = 9 then Some (Inl (RayvisionError 20004 config_path), st')
             else upload_config_retry env cmd config_path (times' + 1) st')
          else Some (Inr (), st'))"

text \<open>
  \<open>upload_config\<close>: every configuration file that exists is sent through the retry
  loop, with a fresh counter; a file that does not exist is skipped.
\<close>

definition speed_or_default :: "string option \<Rightarrow> string" where
  "speed_or_default max_speed = (case max_speed of None \<Rightarrow> ''1048576'' | Some m \<Rightarrow> m)"

definition config_cmd_params :: "string \<Rightarrow> string \<Rightarrow> string option \<Rightarrow> string list" where
  "config_cmd_params local_path server_path max_speed =
     [''upload_path'', local_path, server_path, speed_or_default max_speed,
      ''false'', ''config_bid'']"

fun upload_config_for ::
  "('w, 's) collaborators \<Rightarrow> string \<Rightarrow> string option \<Rightarrow> string list \<Rightarrow> 'w state
     \<Rightarrow> ((error + bool) \<times> 'w state) option" where
  "upload_config_for env task max_speed [] st = Some (Inr True, st)"
| "upload_config_for env task max_speed (config_path # rest) st =
     (if \<not> path_exists env config_path (fst st) then upload_config_for env task max_speed rest st
      else
        (case upload_config_retry env
                (config_cmd_params config_path
                   (''/'' @ task @ ''/cfg/'' @ basename env config_path) max_speed)
                config_path 0 st of
           None \<Rightarrow> None
         | Some (Inl e, st') \<Rightarrow> Some (Inl e, st')
         | Some (Inr u, st') \<Rightarrow> upload_config_for env task max_speed rest st'))"

definition upload_config ::
  "('w, 's) collaborators \<Rightarrow> string \<Rightarrow> string list \<Rightarrow> string option \<Rightarrow> 'w state
     \<Rightarrow> ((error + bool) \<times> 'w state) option" where
  "upload_config env task config_file_list max_speed st =
     upload_config_for env task max_speed config_file_list st"

text \<open>The world before attempt \<open>n + 1\<close> of one command, and the exit code of that attempt.\<close>

primrec world_after :: "('w, 's) collaborators \<Rightarrow> string list \<Rightarrow> nat \<Rightarrow> 'w \<Rightarrow> 'w" where
  "world_after env cmd 0 w = w"
| "world_after env cmd (Suc n) w = world_after env cmd n (snd (run_cmd env cmd w))"

definition attempt_code :: "('w, 's) collaborators \<Rightarrow> string list \<Rightarrow> 'w \<Rightarrow> nat \<Rightarrow> int" where
  "attempt_code env cmd w n = fst (run_cmd env cmd (world_after env cmd n w))"

text \<open>The events of the first \<open>n\<close> attempts of one command.\<close>

primrec attempt_events :: "('w, 's) collaborators \<Rightarrow> string list \<Rightarrow> nat \<Rightarrow> 'w \<Rightarrow> event list" where
  "attempt_events env cmd 0 w = []"
| "attempt_events env cmd (Suc n) w =
     RunCmd cmd (fst (run_cmd env cmd w)) # attempt_events env cmd n (snd (run_cmd env cmd w))"

subsection \<open>\<open>upload_asset\<close> and \<open>thread_pool_upload\<close>\<close>

text \<open>
  \<open>create_db_ini\<close> writes the database configuration file and returns its path, or
  raises for a database type other than \<open>redis\<close> and \<open>sqlite\<close>. \<open>db_type\<close> is the
  configured type, stripped and in lower case; the file name is relative to
  \<open>self.db_ini\<close>; the write is the event \<open>CreateDbIni\<close>.
\<close>

definition create_db_ini ::
  "('w, 's) collaborators \<Rightarrow> string \<Rightarrow> string \<Rightarrow> 'w state \<Rightarrow> (error + string) \<times> 'w state" where
  "create_db_ini env db_type upload_json_path st =
     (if db_type = ''redis'' then
        (Inr ''db_redis.ini'', (fst st, snd st @ [CreateDbIni ''db_redis.ini'']))
      else if db_type = ''sqlite'' then
        (Inr (time_temp env upload_json_path @ ''.ini''),
         (fst st, snd st @ [CreateDbIni (time_temp env upload_json_path @ ''.ini'')]))
      else (Inl (UnsupportedDatabaseError db_type), st))"

text \<open>
  The body of \<open>upload_asset\<close>. \<open>max_speed\<close> and \<open>transmit_type\<close> are read from the keyword
  arguments with the defaults of the signature and go into \<open>cmd_params\<close> as they are; the
  ini file is made only when \<open>is_db\<close> holds, and its path (or \<open>None\<close>) goes into the
  command; the result is what \<open>run_cmd\<close> returns.
\<close>

definition kw_default :: "kwargs \<Rightarrow> string \<Rightarrow> py_value \<Rightarrow> py_value" where
  "kw_default kw key dflt = (case map_of kw key of None \<Rightarrow> dflt | Some v \<Rightarrow> v)"

definition upload_cmd_params :: "string \<Rightarrow> kwargs \<Rightarrow> py_value list" where
  "upload_cmd_params upload_json_path kw =
     [kw_default kw ''transmit_type'' (PyStr ''upload_json''), PyStr upload_json_path, PyStr ''/'',
      (if kw_default kw ''max_speed'' PyNone \<noteq> PyNone then kw_default kw ''max_speed'' PyNone
       else PyStr ''1048576''),
      PyStr ''false'', PyStr ''input_bid'']"

definition upload_asset_body ::
  "('w, 's) collaborators \<Rightarrow> string \<Rightarrow> string \<Rightarrow> bool \<Rightarrow> kwargs \<Rightarrow> 'w state
     \<Rightarrow> (error + int) \<times> 'w state" where
  "upload_asset_body env db_type upload_json_path is_db kw st =
     (if is_db then
        (case create_db_ini env db_type upload_json_path st of
           (Inl e, st1) \<Rightarrow> (Inl e, st1)
         | (Inr db_ini_path, st1) \<Rightarrow>
             (case call_run_upload_cmd env (upload_cmd_params upload_json_path kw)
                     (Some db_ini_path) kw st1 of
                (result, st2) \<Rightarrow> (Inr result, st2)))
      else
        (case call_run_upload_cmd env (upload_cmd_params upload_json_path kw) None kw st of
           (result, st2) \<Rightarrow> (Inr result, st2)))"

text \<open>
  Modelled from the spec: the decorator \<open>upload_retry\<close> of \<open>dayan_sync.utils\<close>, which wraps
  \<open>upload_asset\<close> and is not among the sources. The specification describes it as the
  retry policy: a unit of work is run again, at once, while it fails, up to a fixed number
  of attempts (10), and on reaching the maximum a terminal error is raised; a success ends
  the loop. The unit fails when its result is true (a nonzero exit code), as in the loop of
  \<open>upload_config\<close>; the wrapped function returns \<open>True\<close> on success; an exception of the
  unit leaves the wrapper. The terminal error, \<open>exhausted\<close>, is a parameter.
\<close>

partial_function (option) upload_retry ::
  "error \<Rightarrow> ('w state \<Rightarrow> (error + int) \<times> 'w state) \<Rightarrow> nat \<Rightarrow> 'w state
     \<Rightarrow> ((error + bool) \<times> 'w state) option" where
  "upload_retry exhausted func times' st =
     (case func st of
        (Inl e, st') \<Rightarrow> Some (Inl e, st')
      | (Inr result, st') \<Rightarrow>
          if result \<noteq> 0 then
            (if times' = 9 then Some (Inl exhausted, st')
             else upload_retry exhausted func (times' + 1) st')
          else Some (Inr True, st'))"

text \<open>
  \<open>upload_asset\<close> as it is called: with \<open>upload_json_path\<close> and \<open>is_db\<close> given and the other
  arguments as keywords. A keyword that is not a parameter of \<open>upload_asset\<close> raises
  \<open>TypeError\<close> when the function is called.
\<close>

definition upload_asset_keywords :: "string list" where
  "upload_asset_keywords =
     [''max_speed'', ''engine_type'', ''server_ip'', ''server_port'', ''transmit_type'',
      ''network_mode'', ''redis_flag'', ''is_record'', ''redis_obj'']"

definition upload_asset ::
  "error \<Rightarrow> ('w, 's) collaborators \<Rightarrow> string \<Rightarrow> string \<Rightarrow> bool \<Rightarrow> kwargs \<Rightarrow> 'w state
     \<Rightarrow> ((error + bool) \<times> 'w state) option" where
  "upload_asset exhausted env db_type upload_json_path is_db kw st =
     (case filter (\<lambda>key. key \<notin> set upload_asset_keywords) (map fst kw) of
        key # others \<Rightarrow> Some (Inl (TypeError key), st)
      | [] \<Rightarrow> upload_retry exhausted (upload_asset_body env db_type upload_json_path is_db kw) 0 st)"

text \<open>
  \<^verbatim>\<open>
  def thread_pool_upload(self, upload_pool, pool_size=10, **kwargs):
      kwargs.pop("is_db")
      pool = ThreadPoolExecutor(pool_size)
      for i in range(len(upload_pool)):
          pool.submit(self.upload_asset, upload_json_path=upload_pool[i], is_db=False, **kwargs)
      pool.shutdown(wait=True)
  \<close>
  \<open>dict.pop(key)\<close> without a default raises \<open>KeyError\<close> when the key is absent.
  \<open>ThreadPoolExecutor(max_workers)\<close> raises \<open>ValueError\<close> when \<open>max_workers\<close> is a number
  that is not positive; \<open>None\<close> is allowed. The call \<open>pool.submit(..., upload_json_path=...,
  is_db=False, **kwargs)\<close> raises \<open>TypeError\<close>, before \<open>submit\<close> is entered, when \<open>kwargs\<close>
  repeats the keyword \<open>upload_json_path\<close> (\<open>is_db\<close> has been popped). The pool is modelled by
  the units submitted to it, in the order of submission; how the pool schedules them is
  outside the model.
\<close>

record upload_unit =
  unit_upload_json_path :: string
  unit_is_db :: bool
  unit_kwargs :: kwargs

definition kwargs_pop :: "string \<Rightarrow> kwargs \<Rightarrow> error + py_value \<times> kwargs" where
  "kwargs_pop key kw =
     (case map_of kw key of
        None \<Rightarrow> Inl (KeyError key)
      | Some v \<Rightarrow> Inr (v, filter (\<lambda>kv. fst kv \<noteq> key) kw))"

definition pool_size_ok :: "int option \<Rightarrow> bool" where
  "pool_size_ok pool_size = (case pool_size of None \<Rightarrow> True | Some n \<Rightarrow> 0 < n)"

fun thread_pool_upload_for ::
  "string list \<Rightarrow> kwargs \<Rightarrow> nat list \<Rightarrow> upload_unit list \<Rightarrow> (error + unit) \<times> upload_unit list" where
  "thread_pool_upload_for upload_pool kw [] submitted = (Inr (), submitted)"
| "thread_pool_upload_for upload_pool kw (i # rest) submitted =
     (if map_of kw ''upload_json_path'' \<noteq> None then
        (Inl (TypeError ''upload_json_path''), submitted)
      else
        thread_pool_upload_for upload_pool kw rest
          (submitted @ [\<lparr>unit_upload_json_path = upload_pool ! i, unit_is_db = False,
                          unit_kwargs = kw\<rparr>]))"

definition thread_pool_upload ::
  "string list \<Rightarrow> int option \<Rightarrow> kwargs \<Rightarrow> (error + unit) \<times> upload_unit list" where
  "thread_pool_upload upload_pool pool_size kw =
     (case kwargs_pop ''is_db'' kw of
        Inl e \<Rightarrow> (Inl e, [])
      | Inr (v, kw') \<Rightarrow>
          if \<not> pool_size_ok pool_size then
            (Inl (ValueError ''max_workers must be greater than 0''), [])
          else thread_pool_upload_for upload_pool kw' [0 ..< length upload_pool] [])"

text \<open>What a worker runs for a unit: \<open>upload_asset\<close> with the unit's arguments.\<close>

definition run_unit ::
  "error \<Rightarrow> ('w, 's) collaborators \<Rightarrow> string \<Rightarrow> upload_unit \<Rightarrow> 'w state
     \<Rightarrow> ((error + bool) \<times> 'w state) option" where
  "run_unit exhausted env db_type u st =
     upload_asset exhausted env db_type (unit_upload_json_path u) (unit_is_db u) (unit_kwargs u) st"

section \<open>download.py\<close>

text \<open>
  \<open>time.sleep\<close> and the calls of the logger change nothing the loops read and are left
  out. \<open>is_task_end(task_id) is True\<close> is the boolean the collaborator returns. An
  \<open>assert\<close> that fails raises \<open>AssertionError\<close>.
\<close>

subsection \<open>Transfers\<close>

text \<open>
  The arguments every transfer of one call shares. \<open>print_log\<close>, \<open>engine_type\<close>,
  \<open>server_ip\<close>, \<open>server_port\<close> and \<open>network_mode\<close> only reach \<open>create_cmd\<close> and
  \<open>run_cmd\<close>, which are the parameter \<open>run_cmd\<close> of the model.
\<close>

record transfer_args =
  arg_local_path :: string
  arg_max_speed :: "string option"
  arg_filename_format :: string

text \<open>Python's \<open>str\<close> of an int, in decimal.\<close>

fun str_nat :: "nat \<Rightarrow> string" where
  "str_nat n =
     (if n < 10 then [char_of (48 + n)]
      else str_nat (n div 10) @ [char_of (48 + n mod 10)])"

declare str_nat.simps [simp del]

definition str_int :: "int \<Rightarrow> string" where
  "str_int i = (if i < 0 then CHR ''-'' # str_nat (nat (- i)) else str_nat (nat i))"

text \<open>
  \<open>RayvisionDownload.create_cmd\<close>: run the command, raise \<open>DownloadFailed\<close> on a
  nonzero exit code.
\<close>

definition create_cmd ::
  "('w, 's) collaborators \<Rightarrow> string list \<Rightarrow> string \<Rightarrow> 'w state \<Rightarrow> (error + unit) \<times> 'w state" where
  "create_cmd env cmd_params output st =
     (case call_run_cmd env cmd_params st of
        (tranfer_code, st') \<Rightarrow>
          if tranfer_code \<noteq> 0 then (Inl (DownloadFailed (Output_failed output)), st')
          else (Inr (), st'))"

text \<open>
  \<open>download_type\<close> is compared by identity: \<open>download_type is 'block'\<close>. A string literal
  that a caller writes in its source is the interned string object, the same object as the
  literal of the test; a string with the same characters made at run time is another
  object, and the test fails for it. \<open>Literal s\<close> is the interned object with the
  characters \<open>s\<close>, \<open>OtherStr s\<close> any other string object with these characters, \<open>NoType\<close>
  the default \<open>None\<close>.
\<close>

datatype download_type = NoType | Literal string | OtherStr string

text \<open>
  \<open>_run_cc_download\<close>. The two loops differ in the suffix only: \<open>r'\at_result'\<close> for
  \<open>download_type is 'block'\<close>, \<open>r'\render_result'\<close> for \<open>download_type is 'render'\<close>.
  Any other \<open>download_type\<close>, the default \<open>None\<close> included, runs no command and returns.
\<close>

definition at_result :: string where
  "at_result = CHR 0x5C # ''at_result''"

definition render_result :: string where
  "render_result = CHR 0x5C # ''render_result''"

fun run_cc_download_for ::
  "('w, 's) collaborators \<Rightarrow> transfer_args \<Rightarrow> string \<Rightarrow> task_id list \<Rightarrow> 'w state
     \<Rightarrow> (error + unit) \<times> 'w state" where
  "run_cc_download_for env a suffix [] st = (Inr (), st)"
| "run_cc_download_for env a suffix (task # rest) st =
     (case create_cmd env
             [''download_path'', arg_local_path a, str_int task @ suffix,
              speed_or_default (arg_max_speed a), arg_filename_format a, ''output_bid'']
             (str_int task @ suffix) st of
        (Inl e, st') \<Rightarrow> (Inl e, st')
      | (Inr u, st') \<Rightarrow> run_cc_download_for env a suffix rest st')"

definition run_cc_download ::
  "('w, 's) collaborators \<Rightarrow> transfer_args \<Rightarrow> download_type \<Rightarrow> task_id list \<Rightarrow> 'w state
     \<Rightarrow> (error + unit) \<times> 'w state" where
  "run_cc_download env a download_type task_id_list st =
     (case (if download_type = Literal ''block'' then
              run_cc_download_for env a at_result task_id_list st
            else if download_type = Literal ''render'' then
              run_cc_download_for env a render_result task_id_list st
            else (Inr (), st)) of
        (r, st') \<Rightarrow> (r, (fst st', snd st' @ [RunCcDownload task_id_list r])))"

text \<open>
  \<open>_run_download\<close>. \<open>server_path\<close> is \<open>None\<close>, a string, a list, or a value of another
  type, of which only its truth value is read (\<open>OtherPath truthy\<close>); \<open>not server_path\<close>
  holds for \<open>None\<close>, the empty string, the empty list and a false value of another type.
\<close>

datatype server_path = NoPath | StrPath string | ListPath "string list" | OtherPath bool

fun not_server_path :: "server_path \<Rightarrow> bool" where
  "not_server_path NoPath = True"
| "not_server_path (StrPath p) = (p = [])"
| "not_server_path (ListPath ps) = (ps = [])"
| "not_server_path (OtherPath truthy) = (\<not> truthy)"

fun run_download_for ::
  "('w, 's) collaborators \<Rightarrow> transfer_args \<Rightarrow> string list \<Rightarrow> 'w state
     \<Rightarrow> (error + unit) \<times> 'w state" where
  "run_download_for env a [] st = (Inr (), st)"
| "run_download_for env a (output_file_name # rest) st =
     (case call_run_cmd env
             [''download_path'', arg_local_path a, output_file_name,
              speed_or_default (arg_max_speed a), arg_filename_format a, ''output_bid''] st of
        (tranfer_code, st') \<Rightarrow>
          if tranfer_code \<noteq> 0 then (Inl (DownloadFailed (Output_failed output_file_name)), st')
          else run_download_for env a rest st')"

definition run_download ::
  "('w, 's) collaborators \<Rightarrow> transfer_args \<Rightarrow> task_id list \<Rightarrow> server_path \<Rightarrow> 'w state
     \<Rightarrow> (error + unit) \<times> 'w state" where
  "run_download env a task_id_list server_path st =
     (case (if not_server_path server_path then
              (case call_get_task_status env task_id_list st of
                 (task_status_list, st1) \<Rightarrow>
                   run_download_for env a (output_file_names env task_status_list) st1)
            else
              (case server_path of
                 StrPath p \<Rightarrow> run_download_for env a [p] st
               | ListPath ps \<Rightarrow> run_download_for env a ps st
               | _ \<Rightarrow> (Inl (PyException ''custom_server_output_path must a list or str.''), st))) of
        (r, st') \<Rightarrow> (r, (fst st', snd st' @ [RunDownload task_id_list r])))"

text \<open>
  \<^verbatim>\<open>
  download_flag = True
  try:
      ...transfer...
  except DownloadFailed:
      download_flag = False
  \<close>
  Only \<open>DownloadFailed\<close> is caught; any other exception leaves the function.
\<close>

fun except_download_failed :: "error + unit \<Rightarrow> error + bool" where
  "except_download_failed (Inr u) = Inr True"
| "except_download_failed (Inl (DownloadFailed m)) = Inr False"
| "except_download_failed (Inl e) = Inl e"

subsection \<open>\<open>_auto_download_tool\<close>\<close>

text \<open>
  The \<open>for\<close> loop of one cycle runs over \<open>task_id_list\<close>, which it does not change: the
  removals go to \<open>task_id_list_copy\<close>. \<open>list.remove\<close> takes out the first occurrence, as
  \<open>remove1\<close> does; it is only ever called with an element read from the list the copy was
  taken from.
\<close>

fun auto_download_for ::
  "('w, 's) collaborators \<Rightarrow> transfer_args \<Rightarrow> task_id list \<Rightarrow> task_id list \<Rightarrow> task_id list
     \<Rightarrow> 'w state \<Rightarrow> (error + unit) \<times> task_id list \<times> task_id list \<times> 'w state" where
  "auto_download_for env a [] task_id_list_copy download_failed_list st =
     (Inr (), task_id_list_copy, download_failed_list, st)"
| "auto_download_for env a (task # rest) task_id_list_copy download_failed_list st =
     (case call_is_task_end env task st of
        (is_end, st1) \<Rightarrow>
          (case run_download env a [task] NoPath st1 of
             (r, st2) \<Rightarrow>
               (case except_download_failed r of
                  Inl e \<Rightarrow> (Inl e, task_id_list_copy, download_failed_list, st2)
                | Inr download_flag \<Rightarrow>
                    auto_download_for env a rest
                      (if is_end then remove1 task task_id_list_copy else task_id_list_copy)
                      (if is_end \<and> \<not> download_flag then download_failed_list @ [task]
                       else download_failed_list)
                      st2)))"

text \<open>
  The \<open>while True\<close> loops of the downloader end when the working set is empty, which may
  never happen: they take fuel, one unit for each test of the working set, and \<open>None\<close> is
  a run that has not ended when the fuel is spent. The result carries the working set
  (and here the failure list) at the moment the loop is left.
\<close>

fun auto_download_while ::
  "nat \<Rightarrow> ('w, 's) collaborators \<Rightarrow> transfer_args \<Rightarrow> task_id list \<Rightarrow> task_id list \<Rightarrow> 'w state
     \<Rightarrow> ((error + unit) \<times> task_id list \<times> task_id list \<times> 'w state) option" where
  "auto_download_while 0 env a task_id_list download_failed_list st = None"
| "auto_download_while (Suc fuel) env a task_id_list download_failed_list st =
     (if task_id_list \<noteq> [] then
        (case auto_download_for env a task_id_list task_id_list download_failed_list st of
           (Inl e, copy, failed, st') \<Rightarrow> Some (Inl e, task_id_list, failed, st')
         | (Inr u, copy, failed, st') \<Rightarrow> auto_download_while fuel env a copy failed st')
      else Some (Inr (), task_id_list, download_failed_list, st))"

definition auto_download_tool ::
  "nat \<Rightarrow> ('w, 's) collaborators \<Rightarrow> transfer_args \<Rightarrow> task_id list \<Rightarrow> 'w state
     \<Rightarrow> ((error + unit) \<times> task_id list \<times> task_id list \<times> 'w state) option" where
  "auto_download_tool fuel env a task_id_list st =
     (case auto_download_while fuel env a task_id_list [] st of
        None \<Rightarrow> None
      | Some (Inl e, tasks, download_failed_list, st') \<Rightarrow>
          Some (Inl e, tasks, download_failed_list, st')
      | Some (Inr u, tasks, download_failed_list, st') \<Rightarrow>
          if download_failed_list \<noteq> [] then
            Some (Inl (DownloadFailed (Finally_failed download_failed_list)),
                  tasks, download_failed_list, st')
          else Some (Inr (), tasks, download_failed_list, st'))"


subsection \<open>Loops that remove from the list they run over\<close>

text \<open>
  \<^verbatim>\<open>
  for task_id in task_id_list:
      ...
          task_id_list.remove(task_id)
  \<close>
  \<open>download_block\<close>, \<open>auto_download_after_task_completed\<close> and
  \<open>auto_download_cc_after_task_completed\<close> remove from the list the \<open>for\<close> statement
  is running over. Python's list iterator keeps an index \<open>i\<close>: each step reads
  \<open>task_id_list[i]\<close> from the list as it is then and moves to \<open>i + 1\<close>, and the loop ends
  when \<open>i\<close> is no longer below the current length. A removal therefore makes the loop
  pass over the element that slides into the freed position. The removal is the last
  statement of each body, so a body returns whether it removes (\<open>Inr True\<close>) or not
  (\<open>Inr False\<close>), or the exception it raises; the body is given the current list, which
  \<open>download_block\<close> and the rebuild-aware variant pass to \<open>get_task_status\<close>.
\<close>

function for_task_id ::
  "(task_id \<Rightarrow> task_id list \<Rightarrow> 'w state \<Rightarrow> (error + bool) \<times> 'w state) \<Rightarrow> nat \<Rightarrow> task_id list
     \<Rightarrow> 'w state \<Rightarrow> (error + unit) \<times> task_id list \<times> 'w state" where
  "for_task_id body i task_id_list st =
     (if i < length task_id_list then
        (case body (task_id_list ! i) task_id_list st of
           (Inl e, st') \<Rightarrow> (Inl e, task_id_list, st')
         | (Inr removes, st') \<Rightarrow>
             for_task_id body (Suc i)
               (if removes then remove1 (task_id_list ! i) task_id_list else task_id_list) st')
      else (Inr (), task_id_list, st))"
  by pat_completeness auto
termination
  by (relation "measure (\<lambda>(body, i, task_id_list, st). length task_id_list - i)")
     (auto simp: length_remove1)

declare for_task_id.simps [simp del]

subsection \<open>\<open>download_block\<close>\<close>

text \<open>
  \<^verbatim>\<open>
  task_status_list = self.manage_task.get_task_status(task_id_list)
  sub_task_status_list = (self.manage_task.get_sub_status(task_status_list))
  assert '45' not in sub_task_status_list
  if '25' in sub_task_status_list:
      download_flag = True
      try:
          self._run_cc_download([task_id], ..., download_type=download_type)
      except DownloadFailed:
          download_flag = False
      if download_flag is True:
          task_id_list.remove(task_id)
  \<close>
\<close>

definition download_block_body ::
  "('w, 's) collaborators \<Rightarrow> transfer_args \<Rightarrow> download_type \<Rightarrow> task_id \<Rightarrow> task_id list
     \<Rightarrow> 'w state \<Rightarrow> (error + bool) \<times> 'w state" where
  "download_block_body env a download_type task task_id_list st =
     (case call_get_task_status env task_id_list st of
        (task_status_list, st1) \<Rightarrow>
          let sub_task_status_list = get_sub_status env task_status_list in
          if ''45'' \<in> set sub_task_status_list then (Inl AssertionError, st1)
          else if ''25'' \<in> set sub_task_status_list then
            (case run_cc_download env a download_type [task] st1 of
               (r, st2) \<Rightarrow> (except_download_failed r, st2))
          else (Inr False, st1))"

fun download_block_while ::
  "nat \<Rightarrow> ('w, 's) collaborators \<Rightarrow> transfer_args \<Rightarrow> download_type \<Rightarrow> task_id list \<Rightarrow> 'w state
     \<Rightarrow> ((error + bool) \<times> task_id list \<times> 'w state) option" where
  "download_block_while 0 env a download_type task_id_list st = None"
| "download_block_while (Suc fuel) env a download_type task_id_list st =
     (if task_id_list \<noteq> [] then
        (case for_task_id (download_block_body env a download_type) 0 task_id_list st of
           (Inl e, tasks, st') \<Rightarrow> Some (Inl e, tasks, st')
         | (Inr u, tasks, st') \<Rightarrow> download_block_while fuel env a download_type tasks st')
      else Some (Inr True, task_id_list, st))"

text \<open>
  \<open>check_params\<close>: \<open>task_id_list\<close> and \<open>custom_server_output_path\<close> must not both be
  empty.
\<close>

definition check_params :: "task_id list \<Rightarrow> server_path \<Rightarrow> error + unit" where
  "check_params task_id_list custom_server_output_path =
     (if task_id_list = [] \<and> not_server_path custom_server_output_path then
        Inl (PyException ''One of the task_id_list and custom_server_output_path must exist'')
      else Inr ())"

definition download_block ::
  "nat \<Rightarrow> ('w, 's) collaborators \<Rightarrow> transfer_args \<Rightarrow> download_type \<Rightarrow> task_id list
     \<Rightarrow> server_path \<Rightarrow> 'w state \<Rightarrow> ((error + bool) \<times> task_id list \<times> 'w state) option" where
  "download_block fuel env a download_type task_id_list server_path st =
     (case check_params task_id_list server_path of
        Inl e \<Rightarrow> Some (Inl e, task_id_list, st)
      | Inr u \<Rightarrow> download_block_while fuel env a download_type task_id_list st)"

subsection \<open>\<open>auto_download_after_task_completed\<close>\<close>

text \<open>
  \<^verbatim>\<open>
  is_task_end = self.manage_task.is_task_end(task_id)
  if is_task_end is True:
      time.sleep(float(5))
      self._run_download([task_id], ...)
      task_id_list.remove(task_id)
  \<close>
  The transfer is not inside a \<open>try\<close>.
\<close>

definition after_task_completed_body ::
  "('w, 's) collaborators \<Rightarrow> transfer_args \<Rightarrow> task_id \<Rightarrow> task_id list \<Rightarrow> 'w state
     \<Rightarrow> (error + bool) \<times> 'w state" where
  "after_task_completed_body env a task task_id_list st =
     (case call_is_task_end env task st of
        (is_end, st1) \<Rightarrow>
          if is_end then
            (case run_download env a [task] NoPath st1 of
               (Inl e, st2) \<Rightarrow> (Inl e, st2)
             | (Inr u, st2) \<Rightarrow> (Inr True, st2))
          else (Inr False, st1))"

fun auto_download_after_task_completed ::
  "nat \<Rightarrow> ('w, 's) collaborators \<Rightarrow> transfer_args \<Rightarrow> task_id list \<Rightarrow> 'w state
     \<Rightarrow> ((error + bool) \<times> task_id list \<times> 'w state) option" where
  "auto_download_after_task_completed 0 env a task_id_list st = None"
| "auto_download_after_task_completed (Suc fuel) env a task_id_list st =
     (if task_id_list \<noteq> [] then
        (case for_task_id (after_task_completed_body env a) 0 task_id_list st of
           (Inl e, tasks, st') \<Rightarrow> Some (Inl e, tasks, st')
         | (Inr u, tasks, st') \<Rightarrow> auto_download_after_task_completed fuel env a tasks st')
      else Some (Inr True, task_id_list, st))"

subsection \<open>\<open>auto_download_cc_after_task_completed\<close>\<close>

text \<open>
  \<^verbatim>\<open>
  is_done = (len(set(sub_task_status_list)) == 1) or
            (len(set(sub_task_status_list)) == 2 and
             (['25', '30'] == sorted(set(sub_task_status_list))))
  \<close>
  Python orders strings by code point, lexicographically, which is the order of
  \<open>string\<close> here.
\<close>

definition is_done :: "string list \<Rightarrow> bool" where
  "is_done sub_task_status_list =
     (card (set sub_task_status_list) = 1 \<or>
      (card (set sub_task_status_list) = 2 \<and>
       [''25'', ''30''] = sorted_list_of_set (set sub_task_status_list)))"

text \<open>
  \<^verbatim>\<open>
  task_status_list = self.manage_task.get_task_status(task_id_list)
  render_type_list = self.manage_task.get_render_type(task_status_list)
  sub_task_status_list = (self.manage_task.get_sub_status(task_status_list))
  assert '45' not in sub_task_status_list
  is_done = ...
  if 'Rebuild' in render_type_list and len(render_type_list) > 2 and is_done:
      time.sleep(float(5))
      self._run_cc_download([task_id], ..., download_type=download_type)
      task_id_list.remove(task_id)
  \<close>
  The transfer is not inside a \<open>try\<close>.
\<close>

definition cc_after_task_completed_body ::
  "('w, 's) collaborators \<Rightarrow> transfer_args \<Rightarrow> download_type \<Rightarrow> task_id \<Rightarrow> task_id list
     \<Rightarrow> 'w state \<Rightarrow> (error + bool) \<times> 'w state" where
  "cc_after_task_completed_body env a download_type task task_id_list st =
     (case call_get_task_status env task_id_list st of
        (task_status_list, st1) \<Rightarrow>
          let render_type_list = get_render_type env task_status_list;
              sub_task_status_list = get_sub_status env task_status_list in
          if ''45'' \<in> set sub_task_status_list then (Inl AssertionError, st1)
          else if ''Rebuild'' \<in> set render_type_list \<and> length render_type_list > 2
                  \<and> is_done sub_task_status_list then
            (case run_cc_download env a download_type [task] st1 of
               (Inl e, st2) \<Rightarrow> (Inl e, st2)
             | (Inr u, st2) \<Rightarrow> (Inr True, st2))
          else (Inr False, st1))"

fun auto_download_cc_after_task_completed ::
  "nat \<Rightarrow> ('w, 's) collaborators \<Rightarrow> transfer_args \<Rightarrow> download_type \<Rightarrow> task_id list \<Rightarrow> 'w state
     \<Rightarrow> ((error + bool) \<times> task_id list \<times> 'w state) option" where
  "auto_download_cc_after_task_completed 0 env a download_type task_id_list st = None"
| "auto_download_cc_after_task_completed (Suc fuel) env a download_type task_id_list st =
     (if task_id_list \<noteq> [] then
        (case for_task_id (cc_after_task_completed_body env a download_type) 0 task_id_list st of
           (Inl e, tasks, st') \<Rightarrow> Some (Inl e, tasks, st')
         | (Inr u, tasks, st') \<Rightarrow>
             auto_download_cc_after_task_completed fuel env a download_type tasks st')
      else Some (Inr True, task_id_list, st))"

section \<open>Reading a trace\<close>

text \<open>
  The events a transfer routine writes before its own: status queries and command runs.
\<close>

fun is_inner :: "event \<Rightarrow> bool" where
  "is_inner (GetTaskStatus ts) = True"
| "is_inner (RunCmd c code) = True"
| "is_inner e = False"

text \<open>
  \<open>ended_in evs t\<close>: among the events \<open>evs\<close>, a call \<open>is_task_end(t)\<close> returned \<open>True\<close>.
  \<open>download_failed_in evs t\<close>: among them, a call \<open>_run_download([t], ...)\<close> raised
  \<open>DownloadFailed\<close>. \<open>mentions evs S\<close>: both only hold of task ids in \<open>S\<close>.
\<close>

definition ended_in :: "event list \<Rightarrow> task_id \<Rightarrow> bool" where
  "ended_in evs t = (IsTaskEnd t True \<in> set evs)"

fun raised_download_failed :: "task_id \<Rightarrow> event \<Rightarrow> bool" where
  "raised_download_failed t (RunDownload ts (Inl (DownloadFailed m))) = (ts = [t])"
| "raised_download_failed t e = False"

definition download_failed_in :: "event list \<Rightarrow> task_id \<Rightarrow> bool" where
  "download_failed_in evs t = list_ex (raised_download_failed t) evs"

definition mentions :: "event list \<Rightarrow> task_id set \<Rightarrow> bool" where
  "mentions evs S = (\<forall>t. (ended_in evs t \<or> download_failed_in evs t) \<longrightarrow> t \<in> S)"

text \<open>
  Command runs of \<open>upload_asset\<close>, status queries, command runs of the downloader, and the
  calls \<open>_run_cc_download([t], ...)\<close> for one task id; \<open>cc_fired evs t\<close>: among the events \<open>evs\<close> there is such a call for \<open>t\<close>.
\<close>

fun is_run_upload_cmd :: "event \<Rightarrow> bool" where
  "is_run_upload_cmd (RunUploadCmd c d code) = True"
| "is_run_upload_cmd e = False"

fun is_get_task_status :: "event \<Rightarrow> bool" where
  "is_get_task_status (GetTaskStatus ts) = True"
| "is_get_task_status e = False"

fun is_run_cmd :: "event \<Rightarrow> bool" where
  "is_run_cmd (RunCmd c code) = True"
| "is_run_cmd e = False"

fun is_cc_download_of :: "task_id \<Rightarrow> event \<Rightarrow> bool" where
  "is_cc_download_of t (RunCcDownload ts r) = (ts = [t])"
| "is_cc_download_of t e = False"

definition cc_fired :: "event list \<Rightarrow> task_id \<Rightarrow> bool" where
  "cc_fired evs t = list_ex (is_cc_download_of t) evs"





text \<open>
  The completion condition of the rebuild-aware mode in the words of the specification: the
  status codes are one code, or exactly the pair \<open>'25'\<close> and \<open>'30'\<close>; and the render-type
  list contains \<open>'Rebuild'\<close> and has more than two entries.
\<close>

definition rebuild_complete :: "string list \<Rightarrow> string list \<Rightarrow> bool" where
  "rebuild_complete sub_status render_type \<longleftrightarrow>
     (card (set sub_status) = 1 \<or> set sub_status = {''25'', ''30''}) \<and>
     ''Rebuild'' \<in> set render_type \<and> 2 < length render_type"

text \<open>
  \<open>failures_of evs None\<close>: the task ids, in the order of the events \<open>evs\<close>, of the visits
  of \<open>_auto_download_tool\<close> in which \<open>is_task_end\<close> returned \<open>True\<close> and the
  \<open>_run_download\<close> that follows it raised \<open>DownloadFailed\<close>. The second argument is the
  task id of the last \<open>is_task_end\<close> call if it returned \<open>True\<close> and no \<open>_run_download\<close>
  has returned since.
\<close>

fun failures_of :: "event list \<Rightarrow> task_id option \<Rightarrow> task_id list" where
  "failures_of [] pending = []"
| "failures_of (IsTaskEnd t b # evs) pending = failures_of evs (if b then Some t else None)"
| "failures_of (RunDownload ts (Inl (DownloadFailed m)) # evs) (Some t) = t # failures_of evs None"
| "failures_of (RunDownload ts r # evs) pending = failures_of evs None"
| "failures_of (ev # evs) pending = failures_of evs pending"



section \<open>A scripted environment\<close>

text \<open>
  Collaborators for concrete runs. The world is a clock that counts the calls made so
  far; what a call answers is scripted as a function of its argument and of the clock
  (an upload command fails while the clock is below 2).
  A status value is the triple of the sub-status list, the render-type list and the output
  file names.
\<close>

type_synonym status = "string list \<times> string list \<times> string list"

definition scripted ::
  "(task_id \<Rightarrow> nat \<Rightarrow> bool) \<Rightarrow> (task_id list \<Rightarrow> nat \<Rightarrow> status)
     \<Rightarrow> (string list \<Rightarrow> nat \<Rightarrow> int) \<Rightarrow> (nat, status) collaborators" where
  "scripted ended status code =
     \<lparr>is_task_end = (\<lambda>t w. (ended t w, Suc w)),
      get_task_status = (\<lambda>ts w. (status ts w, Suc w)),
      get_sub_status = fst,
      get_render_type = (\<lambda>s. fst (snd s)),
      output_file_names = (\<lambda>s. snd (snd s)),
      run_cmd = (\<lambda>c w. (code c w, Suc w)),
      run_upload_cmd = (\<lambda>c d k w. (if w < 2 then 1 else 0, Suc w)),
      path_exists = (\<lambda>p w. True),
      basename = (\<lambda>p. p),
      time_temp = (\<lambda>p. p)\<rparr>"

definition args0 :: transfer_args where
  "args0 = \<lparr>arg_local_path = ''out'', arg_max_speed = None, arg_filename_format = ''true''\<rparr>"

text \<open>
  Environments of the concrete runs below. \<open>E1\<close>: task 1 has ended, the others have not;
  every poll reports the code \<open>'25'\<close> and three render types \<open>'Rebuild'\<close>; every command
  exits with 0. \<open>E_fail\<close>: every task has ended, there is one output file \<open>f\<close>, and every
  command exits with 1. \<open>E_illegal\<close>: every poll reports the code \<open>'45'\<close>.
  \<open>E_own code2\<close>: the sub-status list of a poll is the concatenation of the lists of the
  polled tasks, \<open>[code2]\<close> for task 2 and \<open>['0']\<close> for any other. \<open>E_flip\<close>: the first
  call reports \<open>'25'\<close>, every later poll \<open>'45'\<close>. \<open>E_idle\<close>: every poll reports \<open>'0'\<close>.
\<close>

definition E1 :: "(nat, status) collaborators" where
  "E1 = scripted (\<lambda>t w. t = 1) (\<lambda>ts w. ([''25''], [''Rebuild'', ''Rebuild'', ''Rebuild''], []))
          (\<lambda>c w. 0)"


definition E_illegal :: "(nat, status) collaborators" where
  "E_illegal = scripted (\<lambda>t w. False) (\<lambda>ts w. ([''45''], [''Rebuild'', ''Rebuild'', ''Rebuild''], []))
                 (\<lambda>c w. 0)"



definition E_flip :: "(nat, status) collaborators" where
  "E_flip = scripted (\<lambda>t w. False) (\<lambda>ts w. (if w = 0 then [''25''] else [''45''], [], []))
              (\<lambda>c w. 0)"

definition E_idle :: "(nat, status) collaborators" where
  "E_idle = scripted (\<lambda>t w. False) (\<lambda>ts w. ([''0''], [''Rebuild''], [])) (\<lambda>c w. 0)"

text \<open>
  \<open>E_late\<close>: task 1 has ended from the start, any other task once the clock has reached
  6; there is one output file \<open>f\<close>, and every command exits with 1.
\<close>

definition E_late :: "(nat, status) collaborators" where
  "E_late = scripted (\<lambda>t w. t = 1 \<or> 6 \<le> w) (\<lambda>ts w. ([], [], [''f''])) (\<lambda>c w. 1)"

section \<open>The retry loop of \<open>upload_config\<close>\<close>

lemma attempt_code_0: "attempt_code env cmd w 0 = fst (run_cmd env cmd w)"
  by (simp add: attempt_code_def)

lemma attempt_code_Suc:
  "attempt_code env cmd w (Suc n) = attempt_code env cmd (snd (run_cmd env cmd w)) n"
  by (simp add: attempt_code_def)

lemma length_attempt_events: "length (attempt_events env cmd n w) = n"
  by (induction n arbitrary: w) simp_all

lemma call_run_cmd_eq:
  "call_run_cmd env cmd (w, tr) =
     (fst (run_cmd env cmd w),
      (snd (run_cmd env cmd w), tr @ [RunCmd cmd (fst (run_cmd env cmd w))]))"
  by (simp add: call_run_cmd_def split: prod.splits)

lemma retry_exhausts:
  "d + times' = 9 \<Longrightarrow> \<forall>n \<le> d. attempt_code env cmd w n \<noteq> 0 \<Longrightarrow>
   upload_config_retry env cmd p times' (w, tr) =
     Some (Inl (RayvisionError 20004 p),
           (world_after env cmd (Suc d) w, tr @ attempt_events env cmd (Suc d) w))"
proof (induction d arbitrary: times' w tr)
  case 0
  then have "fst (run_cmd env cmd w) \<noteq> 0" by (simp add: attempt_code_0)
  with 0 show ?case
    by (subst upload_config_retry.simps) (simp add: call_run_cmd_eq)
next
  case (Suc d)
  from Suc.prems have f: "fst (run_cmd env cmd w) \<noteq> 0"
    using attempt_code_0 [of env cmd w] by auto
  from Suc.prems have t: "times' \<noteq> 9" "d + (times' + 1) = 9" by simp_all
  have r: "\<forall>n \<le> d. attempt_code env cmd (snd (run_cmd env cmd w)) n \<noteq> 0"
    using Suc.prems(2) by (auto simp: attempt_code_Suc [symmetric])
  show ?case
    using f t(1) Suc.IH [OF t(2) r]
    by (subst upload_config_retry.simps) (simp add: call_run_cmd_eq)
qed

lemma retry_succeeds:
  "k + times' \<le> 9 \<Longrightarrow> \<forall>n < k. attempt_code env cmd w n \<noteq> 0 \<Longrightarrow>
   attempt_code env cmd w k = 0 \<Longrightarrow>
   upload_config_retry env cmd p times' (w, tr) =
     Some (Inr (), (world_after env cmd (Suc k) w, tr @ attempt_events env cmd (Suc k) w))"
proof (induction k arbitrary: times' w tr)
  case 0
  then have "fst (run_cmd env cmd w) = 0" by (simp add: attempt_code_0)
  then show ?case
    by (subst upload_config_retry.simps) (simp add: call_run_cmd_eq)
next
  case (Suc k)
  from Suc.prems have f: "fst (run_cmd env cmd w) \<noteq> 0"
    using attempt_code_0 [of env cmd w] by auto
  from Suc.prems have t: "times' \<noteq> 9" "k + (times' + 1) \<le> 9" by simp_all
  have r: "\<forall>n < k. attempt_code env cmd (snd (run_cmd env cmd w)) n \<noteq> 0"
    using Suc.prems(2) by (auto simp: attempt_code_Suc [symmetric])
  have z: "attempt_code env cmd (snd (run_cmd env cmd w)) k = 0"
    using Suc.prems(3) by (simp add: attempt_code_Suc)
  show ?case
    using f t(1) Suc.IH [OF t(2) r z]
    by (subst upload_config_retry.simps) (simp add: call_run_cmd_eq)
qed

text \<open>
  C6. The retry loop of \<open>upload_config\<close>, started as the code starts it (counter 0):
  when the first ten runs of the command all fail, the loop raises
  \<open>RayvisionError 20004\<close> after exactly ten runs, the tenth being the one that raises;
  when the runs before the \<open>k\<close>-th fail and the \<open>k\<close>-th succeeds, for \<open>1 \<le> k \<le> 10\<close>,
  the loop ends normally after exactly \<open>k\<close> runs. In both cases the loop returns.
\<close>

theorem upload_config_retry_budget:
  "((\<forall>n < 10. attempt_code env cmd w n \<noteq> 0) \<longrightarrow>
      upload_config_retry env cmd p 0 (w, tr) =
        Some (Inl (RayvisionError 20004 p),
              (world_after env cmd 10 w, tr @ attempt_events env cmd 10 w))
      \<and> length (attempt_events env cmd 10 w) = 10) \<and>
   (1 \<le> k \<and> k \<le> 10 \<and> (\<forall>n < k - 1. attempt_code env cmd w n \<noteq> 0) \<and>
      attempt_code env cmd w (k - 1) = 0 \<longrightarrow>
      upload_config_retry env cmd p 0 (w, tr) =
        Some (Inr (), (world_after env cmd k w, tr @ attempt_events env cmd k w))
      \<and> length (attempt_events env cmd k w) = k)"
proof (intro conjI impI)
  assume a: "\<forall>n < 10. attempt_code env cmd w n \<noteq> 0"
  then have "\<forall>n \<le> 9. attempt_code env cmd w n \<noteq> 0" by auto
  from retry_exhausts [of 9 0 env cmd w p tr, OF _ this]
  show "upload_config_retry env cmd p 0 (w, tr) =
        Some (Inl (RayvisionError 20004 p),
              (world_after env cmd 10 w, tr @ attempt_events env cmd 10 w))"
    by (simp add: eval_nat_numeral)
next
  assume a: "1 \<le> k \<and> k \<le> 10 \<and> (\<forall>n < k - 1. attempt_code env cmd w n \<noteq> 0) \<and>
      attempt_code env cmd w (k - 1) = 0"
  then obtain j where j: "k = Suc j" by (cases k) auto
  with a have "j + 0 \<le> 9" "\<forall>n < j. attempt_code env cmd w n \<noteq> 0" "attempt_code env cmd w j = 0"
    by auto
  from retry_succeeds [OF this]
  show "upload_config_retry env cmd p 0 (w, tr) =
        Some (Inr (), (world_after env cmd k w, tr @ attempt_events env cmd k w))"
    by (simp add: j)
qed (simp_all add: length_attempt_events)

lemma world_after_scripted: "world_after (scripted e s c) cmd n w = w + n"
  by (induction n arbitrary: w) (simp_all add: scripted_def)

theorem upload_config_retry_budget_witness:
  "upload_config_retry (scripted (\<lambda>t w. False) (\<lambda>ts w. ([], [], [])) (\<lambda>c w. 1))
      [''upload_path''] ''task.json'' 0 (0, [])
     = Some (Inl (RayvisionError 20004 ''task.json''),
             (10, replicate 10 (RunCmd [''upload_path''] 1))) \<and>
   upload_config_retry
      (scripted (\<lambda>t w. False) (\<lambda>ts w. ([], [], [])) (\<lambda>c w. if w < 2 then 1 else 0))
      [''upload_path''] ''task.json'' 0 (0, [])
     = Some (Inr (), (3, [RunCmd [''upload_path''] 1, RunCmd [''upload_path''] 1,
                          RunCmd [''upload_path''] 0]))"
proof -
  let ?f = "scripted (\<lambda>t w. False) (\<lambda>ts w. ([], [], [])) (\<lambda>c w. 1)"
  let ?g = "scripted (\<lambda>t w. False) (\<lambda>ts w. ([], [], [])) (\<lambda>c w. if w < 2 then 1 else 0)"
  have f: "\<forall>n < 10. attempt_code ?f [''upload_path''] 0 n \<noteq> 0"
    by (simp add: attempt_code_def scripted_def)
  have g: "1 \<le> (3::nat) \<and> (3::nat) \<le> 10 \<and>
           (\<forall>n < 3 - 1. attempt_code ?g [''upload_path''] 0 n \<noteq> 0) \<and>
           attempt_code ?g [''upload_path''] 0 (3 - 1) = 0"
    by (simp add: attempt_code_def world_after_scripted) (simp add: scripted_def)
  have ef: "attempt_events ?f [''upload_path''] 10 0 = replicate 10 (RunCmd [''upload_path''] 1)"
    by (simp add: eval_nat_numeral scripted_def)
  have eg: "attempt_events ?g [''upload_path''] 3 0 =
      [RunCmd [''upload_path''] 1, RunCmd [''upload_path''] 1, RunCmd [''upload_path''] 0]"
    by (simp add: eval_nat_numeral scripted_def)
  show ?thesis
    using upload_config_retry_budget
        [where env = ?f and cmd = "[''upload_path'']" and w = 0 and k = 3
           and p = "''task.json''" and tr = "[]"]
      upload_config_retry_budget
        [where env = ?g and cmd = "[''upload_path'']" and w = 0 and k = 3
           and p = "''task.json''" and tr = "[]"] f g
    by (simp add: world_after_scripted ef eg)
qed

section \<open>\<open>_auto_download_tool\<close>: one cycle, and the aggregate error\<close>

lemma call_is_task_end_eq:
  "call_is_task_end env t (w, tr) =
     (fst (is_task_end env t w),
      (snd (is_task_end env t w), tr @ [IsTaskEnd t (fst (is_task_end env t w))]))"
  by (simp add: call_is_task_end_def split: prod.splits)

lemma call_get_task_status_eq:
  "call_get_task_status env ts (w, tr) =
     (fst (get_task_status env ts w), (snd (get_task_status env ts w), tr @ [GetTaskStatus ts]))"
  by (simp add: call_get_task_status_def split: prod.splits)

lemma run_download_for_shape:
  "\<exists>r w' inner. run_download_for env a names (w, tr) = (r, (w', tr @ inner)) \<and>
      list_all is_inner inner \<and>
      (r = Inr () \<or> (\<exists>m. r = Inl (DownloadFailed (Output_failed m))))"
proof (induction names arbitrary: w tr)
  case Nil
  show ?case by simp
next
  case (Cons n names)
  let ?c = "[''download_path'', arg_local_path a, n, speed_or_default (arg_max_speed a),
             arg_filename_format a, ''output_bid'']"
  show ?case
  proof (cases "fst (run_cmd env ?c w) = 0")
    case False
    then show ?thesis by (simp add: call_run_cmd_eq)
  next
    case True
    from Cons.IH [of "snd (run_cmd env ?c w)" "tr @ [RunCmd ?c 0]"]
    obtain r w' inner where
      "run_download_for env a names (snd (run_cmd env ?c w), tr @ [RunCmd ?c 0]) =
         (r, (w', (tr @ [RunCmd ?c 0]) @ inner))"
      "list_all is_inner inner"
      "r = Inr () \<or> (\<exists>m. r = Inl (DownloadFailed (Output_failed m)))"
      by blast
    with True have "run_download_for env a (n # names) (w, tr) = (r, (w', tr @ (RunCmd ?c 0 # inner)))
        \<and> list_all is_inner (RunCmd ?c 0 # inner)
        \<and> (r = Inr () \<or> (\<exists>m. r = Inl (DownloadFailed (Output_failed m))))"
      by (simp add: call_run_cmd_eq)
    then show ?thesis by blast
  qed
qed

lemma run_download_NoPath_shape:
  "\<exists>r w' inner. run_download env a ts NoPath (w, tr) = (r, (w', tr @ inner @ [RunDownload ts r])) \<and>
      list_all is_inner inner \<and>
      (r = Inr () \<or> (\<exists>m. r = Inl (DownloadFailed (Output_failed m))))"
proof -
  let ?s = "fst (get_task_status env ts w)"
  from run_download_for_shape [of env a "output_file_names env ?s"
         "snd (get_task_status env ts w)" "tr @ [GetTaskStatus ts]"]
  obtain r w' inner where
    "run_download_for env a (output_file_names env ?s)
        (snd (get_task_status env ts w), tr @ [GetTaskStatus ts]) =
       (r, (w', (tr @ [GetTaskStatus ts]) @ inner))"
    "list_all is_inner inner"
    "r = Inr () \<or> (\<exists>m. r = Inl (DownloadFailed (Output_failed m)))"
    by blast
  then have "run_download env a ts NoPath (w, tr) =
        (r, (w', tr @ (GetTaskStatus ts # inner) @ [RunDownload ts r]))
      \<and> list_all is_inner (GetTaskStatus ts # inner)
      \<and> (r = Inr () \<or> (\<exists>m. r = Inl (DownloadFailed (Output_failed m))))"
    by (simp add: run_download_def call_get_task_status_eq)
  then show ?thesis by blast
qed

lemma inner_not_ended: "list_all is_inner evs \<Longrightarrow> \<not> ended_in evs t"
  by (induction evs) (auto simp: ended_in_def)

lemma inner_not_failed: "list_all is_inner evs \<Longrightarrow> \<not> download_failed_in evs t"
proof (induction evs)
  case Nil
  show ?case by (simp add: download_failed_in_def)
next
  case (Cons e evs)
  then show ?case by (cases e) (simp_all add: download_failed_in_def)
qed

lemma ended_in_append: "ended_in (xs @ ys) t = (ended_in xs t \<or> ended_in ys t)"
  by (auto simp: ended_in_def)

lemma download_failed_in_append:
  "download_failed_in (xs @ ys) t = (download_failed_in xs t \<or> download_failed_in ys t)"
  by (simp add: download_failed_in_def)

text \<open>The events of one visit of the auto loop.\<close>

lemma visit_ended:
  "list_all is_inner inner \<Longrightarrow>
   ended_in (IsTaskEnd t b # inner @ [RunDownload [t] r]) x = (x = t \<and> b)"
  using inner_not_ended [of inner x] by (auto simp: ended_in_def)

lemma visit_failed:
  "list_all is_inner inner \<Longrightarrow>
   download_failed_in (IsTaskEnd t b # inner @ [RunDownload [t] r]) x =
     (x = t \<and> (\<exists>m. r = Inl (DownloadFailed m)))"
proof -
  assume "list_all is_inner inner"
  then have n: "\<not> list_ex (raised_download_failed x) inner"
    using inner_not_failed [of inner x] by (simp add: download_failed_in_def)
  have "raised_download_failed x (RunDownload [t] r) = (x = t \<and> (\<exists>m. r = Inl (DownloadFailed m)))"
  proof (cases r)
    case (Inl e)
    then show ?thesis by (cases e) auto
  next
    case (Inr u)
    then show ?thesis by simp
  qed
  with n show ?thesis by (simp add: download_failed_in_def)
qed

lemma auto_download_for_spec:
  "distinct ts \<Longrightarrow> distinct copy \<Longrightarrow>
   \<exists>w' evs. auto_download_for env a ts copy failed (w, tr) =
       (Inr (), [t \<leftarrow> copy. \<not> (t \<in> set ts \<and> ended_in evs t)],
        failed @ [t \<leftarrow> ts. ended_in evs t \<and> download_failed_in evs t], (w', tr @ evs))
     \<and> mentions evs (set ts)"
proof (induction ts arbitrary: copy failed w tr)
  case Nil
  have "auto_download_for env a [] copy failed (w, tr) = (Inr (), copy, failed, (w, tr @ []))"
    by simp
  then show ?case
    by (intro exI [of _ w] exI [of _ "[]"]) (simp add: mentions_def ended_in_def download_failed_in_def)
next
  case (Cons t ts)
  let ?b = "fst (is_task_end env t w)"
  let ?w1 = "snd (is_task_end env t w)"
  obtain r w2 inner where rd:
    "run_download env a [t] NoPath (?w1, tr @ [IsTaskEnd t ?b]) =
       (r, (w2, (tr @ [IsTaskEnd t ?b]) @ inner @ [RunDownload [t] r]))"
    and inner: "list_all is_inner inner"
    and r: "r = Inr () \<or> (\<exists>m. r = Inl (DownloadFailed (Output_failed m)))"
    using run_download_NoPath_shape [of env a "[t]" ?w1 "tr @ [IsTaskEnd t ?b]"] by blast
  let ?flag = "r = Inr ()"
  let ?v = "IsTaskEnd t ?b # inner @ [RunDownload [t] r]"
  let ?copy1 = "if ?b then remove1 t copy else copy"
  let ?failed1 = "if ?b \<and> \<not> ?flag then failed @ [t] else failed"
  from r have ex: "except_download_failed r = Inr ?flag" by auto
  have step: "auto_download_for env a (t # ts) copy failed (w, tr) =
      auto_download_for env a ts ?copy1 ?failed1 (w2, tr @ ?v)"
    using rd ex by (simp add: call_is_task_end_eq)
  from Cons.prems have d: "distinct ts" "t \<notin> set ts" "distinct ?copy1" by auto
  from Cons.IH [OF d(1) d(3), of ?failed1 w2 "tr @ ?v"]
  obtain w' evs where rest:
    "auto_download_for env a ts ?copy1 ?failed1 (w2, tr @ ?v) =
       (Inr (), [x \<leftarrow> ?copy1. \<not> (x \<in> set ts \<and> ended_in evs x)],
        ?failed1 @ [x \<leftarrow> ts. ended_in evs x \<and> download_failed_in evs x], (w', (tr @ ?v) @ evs))"
    and m: "mentions evs (set ts)"
    by blast
  define ev where "ev = ?v @ evs"
  define b where "b = ?b"
  have e_t: "\<not> ended_in evs t" "\<not> download_failed_in evs t"
    using m d(2) by (auto simp: mentions_def)
  have E: "ended_in ev x = ((x = t \<and> b) \<or> ended_in evs x)" for x
    unfolding ev_def b_def
    using visit_ended [OF inner, of t ?b r x] ended_in_append [of ?v evs x] by simp
  have F: "download_failed_in ev x =
      ((x = t \<and> (\<exists>m. r = Inl (DownloadFailed m))) \<or> download_failed_in evs x)" for x
    unfolding ev_def
    using visit_failed [OF inner, of t ?b r x] download_failed_in_append [of ?v evs x] by simp
  have nf: "(\<exists>m. r = Inl (DownloadFailed m)) = (\<not> ?flag)" using r by auto
  have copy_eq: "[x \<leftarrow> ?copy1. \<not> (x \<in> set ts \<and> ended_in evs x)] =
      [x \<leftarrow> copy. \<not> (x \<in> set (t # ts) \<and> ended_in ev x)]"
  proof (cases ?b)
    case True
    then have bt: b by (simp add: b_def)
    have "remove1 t copy = [x \<leftarrow> copy. x \<noteq> t]"
      using Cons.prems(2) by (simp add: distinct_remove1_removeAll removeAll_filter_not_eq) metis
    moreover have "[x \<leftarrow> [x \<leftarrow> copy. x \<noteq> t]. \<not> (x \<in> set ts \<and> ended_in evs x)] =
      [x \<leftarrow> copy. \<not> (x \<in> set (t # ts) \<and> ended_in ev x)]"
      using e_t(1) bt by (auto simp: E intro!: filter_cong)
    ultimately show ?thesis using True by simp
  next
    case False
    then have bf: "\<not> b" by (simp add: b_def)
    have "[x \<leftarrow> copy. \<not> (x \<in> set ts \<and> ended_in evs x)] =
      [x \<leftarrow> copy. \<not> (x \<in> set (t # ts) \<and> ended_in ev x)]"
      using e_t(1) bf by (auto simp: E intro!: filter_cong)
    then show ?thesis using False by simp
  qed
  have failed_eq: "?failed1 @ [x \<leftarrow> ts. ended_in evs x \<and> download_failed_in evs x] =
      failed @ [x \<leftarrow> t # ts. ended_in ev x \<and> download_failed_in ev x]"
  proof -
    have tail: "[x \<leftarrow> ts. ended_in ev x \<and> download_failed_in ev x] =
        [x \<leftarrow> ts. ended_in evs x \<and> download_failed_in evs x]"
      using d(2) by (intro filter_cong) (auto simp: E F)
    have head: "(ended_in ev t \<and> download_failed_in ev t) = (?b \<and> \<not> ?flag)"
      using e_t nf by (simp add: E F b_def)
    show ?thesis using tail head by simp
  qed
  have ment: "mentions ev (set (t # ts))"
    using m by (auto simp: mentions_def E F)
  have "tr @ ev = (tr @ ?v) @ evs" by (simp add: ev_def)
  then have "auto_download_for env a (t # ts) copy failed (w, tr) =
       (Inr (), [x \<leftarrow> copy. \<not> (x \<in> set (t # ts) \<and> ended_in ev x)],
        failed @ [x \<leftarrow> t # ts. ended_in ev x \<and> download_failed_in ev x], (w', tr @ ev))"
    using step rest copy_eq failed_eq by simp
  with ment show ?case by blast
qed


lemma auto_download_for_returns:
  "fst (auto_download_for env a ts copy failed st) = Inr ()"
proof (induction ts arbitrary: copy failed st)
  case Nil
  show ?case by simp
next
  case (Cons t ts)
  obtain w tr where st: "st = (w, tr)" by (cases st)
  let ?b = "fst (is_task_end env t w)"
  let ?w1 = "snd (is_task_end env t w)"
  obtain r w2 inner where rd:
    "run_download env a [t] NoPath (?w1, tr @ [IsTaskEnd t ?b]) =
       (r, (w2, (tr @ [IsTaskEnd t ?b]) @ inner @ [RunDownload [t] r]))"
    and r: "r = Inr () \<or> (\<exists>m. r = Inl (DownloadFailed (Output_failed m)))"
    using run_download_NoPath_shape [of env a "[t]" ?w1 "tr @ [IsTaskEnd t ?b]"] by blast
  from r have ex: "except_download_failed r = Inr (r = Inr ())" by auto
  show ?case
    unfolding st using rd ex Cons.IH by (simp add: call_is_task_end_eq)
qed

lemma auto_download_while_exit:
  "auto_download_while fuel env a ts failed st = Some (r, ts', fl, st') \<Longrightarrow>
   r = Inr () \<and> ts' = []"
proof (induction fuel arbitrary: ts failed st)
  case 0
  then show ?case by simp
next
  case (Suc fuel)
  show ?case
  proof (cases "ts = []")
    case True
    with Suc.prems show ?thesis by simp
  next
    case False
    obtain copy failed1 st1 where
      c: "auto_download_for env a ts ts failed st = (Inr (), copy, failed1, st1)"
      using auto_download_for_returns [of env a ts ts failed st]
      by (cases "auto_download_for env a ts ts failed st") auto
    with False Suc.prems
    have "auto_download_while fuel env a copy failed1 st1 = Some (r, ts', fl, st')" by simp
    then show ?thesis by (rule Suc.IH)
  qed
qed

lemma failures_of_inner:
  "list_all is_inner inner \<Longrightarrow> failures_of (inner @ evs) p = failures_of evs p"
proof (induction inner)
  case Nil
  show ?case by simp
next
  case (Cons e inner)
  then show ?case by (cases e) simp_all
qed

lemma failures_of_visit:
  assumes inner: "list_all is_inner inner"
    and r: "r = Inr () \<or> (\<exists>m. r = Inl (DownloadFailed (Output_failed m)))"
  shows "failures_of ((IsTaskEnd t b # inner @ [RunDownload [t] r]) @ evs) p =
     (if b \<and> r \<noteq> Inr () then [t] else []) @ failures_of evs None"
proof -
  have "failures_of ((IsTaskEnd t b # inner @ [RunDownload [t] r]) @ evs) p =
        failures_of (RunDownload [t] r # evs) (if b then Some t else None)"
    using failures_of_inner [OF inner, of "RunDownload [t] r # evs"] by simp
  also have "\<dots> = (if b \<and> r \<noteq> Inr () then [t] else []) @ failures_of evs None"
    using r by auto
  finally show ?thesis .
qed

lemma auto_download_for_trace:
  "\<exists>copy' failed' w' evs.
     auto_download_for env a ts copy failed (w, tr) = (Inr (), copy', failed', (w', tr @ evs)) \<and>
     failed' = failed @ failures_of evs None \<and>
     (\<forall>rest. failures_of (evs @ rest) None = failures_of evs None @ failures_of rest None) \<and>
     (\<forall>t \<in> set copy. t \<in> set copy' \<or> ended_in evs t)"
proof (induction ts arbitrary: copy failed w tr)
  case Nil
  have "auto_download_for env a [] copy failed (w, tr) = (Inr (), copy, failed, (w, tr @ []))"
    by simp
  moreover have "failed = failed @ failures_of [] None" by simp
  moreover have "\<forall>rest. failures_of ([] @ rest) None = failures_of [] None @ failures_of rest None"
    by simp
  moreover have "\<forall>t \<in> set copy. t \<in> set copy \<or> ended_in [] t" by simp
  ultimately show ?case by blast
next
  case (Cons t ts)
  let ?b = "fst (is_task_end env t w)"
  let ?w1 = "snd (is_task_end env t w)"
  obtain r w2 inner where rd:
    "run_download env a [t] NoPath (?w1, tr @ [IsTaskEnd t ?b]) =
       (r, (w2, (tr @ [IsTaskEnd t ?b]) @ inner @ [RunDownload [t] r]))"
    and inner: "list_all is_inner inner"
    and r: "r = Inr () \<or> (\<exists>m. r = Inl (DownloadFailed (Output_failed m)))"
    using run_download_NoPath_shape [of env a "[t]" ?w1 "tr @ [IsTaskEnd t ?b]"] by blast
  let ?flag = "r = Inr ()"
  define v where "v = IsTaskEnd t ?b # inner @ [RunDownload [t] r]"
  define copy1 where "copy1 = (if ?b then remove1 t copy else copy)"
  define failed1 where "failed1 = (if ?b \<and> \<not> ?flag then failed @ [t] else failed)"
  from r have ex: "except_download_failed r = Inr ?flag" by auto
  have step: "auto_download_for env a (t # ts) copy failed (w, tr) =
      auto_download_for env a ts copy1 failed1 (w2, tr @ v)"
    unfolding v_def copy1_def failed1_def
    using rd ex by (simp add: call_is_task_end_eq)
  from Cons.IH [of copy1 failed1 w2 "tr @ v"]
  obtain copy' failed' w' evs where
    rest: "auto_download_for env a ts copy1 failed1 (w2, tr @ v) =
             (Inr (), copy', failed', (w', (tr @ v) @ evs))"
    and f: "failed' = failed1 @ failures_of evs None"
    and cl: "\<forall>rest. failures_of (evs @ rest) None = failures_of evs None @ failures_of rest None"
    and cp: "\<forall>x \<in> set copy1. x \<in> set copy' \<or> ended_in evs x"
    by blast
  have fv: "failures_of (v @ xs) None = (if ?b \<and> \<not> ?flag then [t] else []) @ failures_of xs None"
    for xs
    unfolding v_def by (rule failures_of_visit [OF inner r])
  have 1: "auto_download_for env a (t # ts) copy failed (w, tr) =
             (Inr (), copy', failed', (w', tr @ (v @ evs)))"
    using step rest by simp
  have 2: "failed' = failed @ failures_of (v @ evs) None"
    using f fv [of evs] by (simp add: failed1_def)
  have 3: "\<forall>rest. failures_of ((v @ evs) @ rest) None =
             failures_of (v @ evs) None @ failures_of rest None"
    using fv cl by simp
  have ve: "ended_in v x = (x = t \<and> ?b)" for x
    unfolding v_def by (rule visit_ended [OF inner])
  have 4: "\<forall>x \<in> set (t # ts) \<union> set copy. x \<in> set copy \<longrightarrow> x \<in> set copy' \<or> ended_in (v @ evs) x"
  proof (intro ballI impI)
    fix x assume x: "x \<in> set copy"
    show "x \<in> set copy' \<or> ended_in (v @ evs) x"
    proof (cases "x \<in> set copy1")
      case True
      with cp show ?thesis by (auto simp: ended_in_append)
    next
      case False
      with x have "?b" "x = t"
        by (auto simp: copy1_def split: if_splits dest: in_set_remove1 [THEN iffD2, rotated])
      then show ?thesis by (simp add: ended_in_append ve)
    qed
  qed
  then have 5: "\<forall>x \<in> set copy. x \<in> set copy' \<or> ended_in (v @ evs) x" by blast
  from 1 2 3 5 show ?case by blast
qed


lemma auto_download_while_trace:
  "auto_download_while fuel env a ts failed (w, tr) = Some (r, ts', fl, (w', tr')) \<Longrightarrow>
   \<exists>evs. tr' = tr @ evs \<and> fl = failed @ failures_of evs None \<and>
     (\<forall>t \<in> set ts. ended_in evs t)"
proof (induction fuel arbitrary: ts failed w tr)
  case 0
  then show ?case by simp
next
  case (Suc fuel)
  show ?case
  proof (cases "ts = []")
    case True
    with Suc.prems have "tr' = tr @ [] \<and> fl = failed @ failures_of [] None \<and>
        (\<forall>t \<in> set ts. ended_in [] t)"
      by simp
    then show ?thesis by (rule exI [of _ "[]"])
  next
    case False
    obtain copy1 failed1 w1 evs0 where
      c: "auto_download_for env a ts ts failed (w, tr) = (Inr (), copy1, failed1, (w1, tr @ evs0))"
      and f: "failed1 = failed @ failures_of evs0 None"
      and cl: "\<forall>rest. failures_of (evs0 @ rest) None =
                 failures_of evs0 None @ failures_of rest None"
      and cp: "\<forall>t \<in> set ts. t \<in> set copy1 \<or> ended_in evs0 t"
      using auto_download_for_trace [of env a ts ts failed w tr]
      by (elim exE conjE)
    from False c Suc.prems
    have "auto_download_while fuel env a copy1 failed1 (w1, tr @ evs0) =
            Some (r, ts', fl, (w', tr'))"
      by simp
    from Suc.IH [OF this] obtain evs where
      e: "tr' = (tr @ evs0) @ evs" and f1: "fl = failed1 @ failures_of evs None"
      and en: "\<forall>t \<in> set copy1. ended_in evs t"
      by (elim exE conjE)
    have 1: "tr' = tr @ (evs0 @ evs)" using e by simp
    have 2: "fl = failed @ failures_of (evs0 @ evs) None" using f f1 cl by simp
    have 3: "\<forall>t \<in> set ts. ended_in (evs0 @ evs) t"
    proof
      fix t assume "t \<in> set ts"
      with cp have "t \<in> set copy1 \<or> ended_in evs0 t" by (rule bspec)
      then show "ended_in (evs0 @ evs) t"
      proof
        assume "t \<in> set copy1"
        with en have "ended_in evs t" by (rule bspec)
        then show ?thesis by (simp add: ended_in_append)
      next
        assume "ended_in evs0 t"
        then show ?thesis by (simp add: ended_in_append)
      qed
    qed
    show ?thesis
      by (rule exI [of _ "evs0 @ evs"]) (rule conjI [OF 1 conjI [OF 2 3]])
  qed
qed

lemma auto_download_tool_of_while:
  "auto_download_while fuel env a ts [] st = Some (r0, ts0, fl0, st0) \<Longrightarrow>
   auto_download_tool fuel env a ts st =
     Some (if fl0 \<noteq> [] then Inl (DownloadFailed (Finally_failed fl0)) else Inr (), [], fl0, st0)"
proof -
  assume h: "auto_download_while fuel env a ts [] st = Some (r0, ts0, fl0, st0)"
  from auto_download_while_exit [OF h] have "r0 = Inr ()" "ts0 = []" by simp_all
  with h show ?thesis by (simp add: auto_download_tool_def)
qed

lemma auto_download_tool_trace:
  assumes t: "auto_download_tool fuel env a ts (w, tr) = Some (r, ts', fl, (w', tr'))"
  shows "\<exists>evs. tr' = tr @ evs \<and> fl = failures_of evs None \<and> (\<forall>t \<in> set ts. ended_in evs t)"
proof (cases "auto_download_while fuel env a ts [] (w, tr)")
  case None
  with t show ?thesis by (simp add: auto_download_tool_def)
next
  case (Some res)
  obtain r0 ts0 fl0 w0 tr0 where res: "res = (r0, ts0, fl0, (w0, tr0))" by (cases res) auto
  from auto_download_tool_of_while [of fuel env a ts "(w, tr)" r0 ts0 fl0 "(w0, tr0)"] Some res t
  have "fl0 = fl" "tr0 = tr'" by simp_all
  with auto_download_while_trace [of fuel env a ts "[]" w tr r0 ts0 fl0 w0 tr0] Some res
  show ?thesis by simp
qed

lemma auto_download_while_unroll:
  "ts \<noteq> [] \<Longrightarrow> auto_download_for env a ts ts failed st = (r1, ts1, failed1, st1) \<Longrightarrow>
   auto_download_while (Suc fuel) env a ts failed st =
     auto_download_while fuel env a ts1 failed1 st1"
proof -
  assume n: "ts \<noteq> []" and c: "auto_download_for env a ts ts failed st = (r1, ts1, failed1, st1)"
  from auto_download_for_returns [of env a ts ts failed st] c have "r1 = Inr ()" by simp
  with n c show ?thesis by simp
qed

text \<open>
  C1. In \<open>_auto_download_tool\<close>, for a working set \<open>ts\<close> of distinct task ids, one cycle
  (the \<open>for\<close> loop, started with the copy equal to \<open>ts\<close>) never raises, and with \<open>evs\<close>
  the events of that cycle: the working set after the cycle is \<open>ts\<close> without exactly the
  ids for which \<open>is_task_end\<close> returned \<open>True\<close> in the cycle, whatever their download did;
  the failure list grows by exactly the ids for which \<open>is_task_end\<close> returned \<open>True\<close> and
  the download of the cycle raised \<open>DownloadFailed\<close>. And whenever
  \<open>_auto_download_tool\<close> ends, the working set is empty and the call raises the aggregate
  \<open>DownloadFailed\<close>, naming the failure list, if and only if that list is not empty.
  The \<open>while\<close> loop carries the cycles forward: with a working set that is not empty it
  runs one cycle on it and goes on from the working set, the failure list and the state
  that cycle leaves; with an empty one it ends with the failure list it has; and
  \<open>_auto_download_tool\<close> is that loop started with an empty failure list, followed by the
  test of the list. So for every call that ends, with \<open>evs\<close> the events of the whole call:
  \<open>is_task_end\<close> returned \<open>True\<close> for every task id of the working set, and the failure
  list is, in order, the ids of the visits in which \<open>is_task_end\<close> returned \<open>True\<close> and the
  download raised \<open>DownloadFailed\<close>.
\<close>

theorem auto_download_tool_cycle:
  "(distinct ts \<longrightarrow>
      (\<exists>w' evs. auto_download_for env a ts ts failed (w, tr) =
         (Inr (), [t \<leftarrow> ts. \<not> ended_in evs t],
          failed @ [t \<leftarrow> ts. ended_in evs t \<and> download_failed_in evs t], (w', tr @ evs)))) \<and>
   (auto_download_tool fuel env a ts st = Some (r, ts', fl, st') \<longrightarrow>
      ts' = [] \<and> r = (if fl \<noteq> [] then Inl (DownloadFailed (Finally_failed fl)) else Inr ())) \<and>
   (ts \<noteq> [] \<and> auto_download_for env a ts ts failed st = (r1, ts1, failed1, st1) \<longrightarrow>
      auto_download_while (Suc fuel) env a ts failed st =
        auto_download_while fuel env a ts1 failed1 st1) \<and>
   auto_download_while (Suc fuel) env a [] failed st = Some (Inr (), [], failed, st) \<and>
   (auto_download_while fuel env a ts [] st = Some (r0, ts0, fl0, st0) \<longrightarrow>
      auto_download_tool fuel env a ts st =
        Some (if fl0 \<noteq> [] then Inl (DownloadFailed (Finally_failed fl0)) else Inr (),
              [], fl0, st0)) \<and>
   (auto_download_while fuel env a ts [] st = None \<longrightarrow>
      auto_download_tool fuel env a ts st = None) \<and>
   (auto_download_tool fuel env a ts (w, tr) = Some (r2, ts2, fl2, (w2, tr2)) \<longrightarrow>
      (\<exists>evs. tr2 = tr @ evs \<and> fl2 = failures_of evs None \<and>
             (\<forall>t \<in> set ts. ended_in evs t)))"
proof -
  have 1: "distinct ts \<longrightarrow>
      (\<exists>w' evs. auto_download_for env a ts ts failed (w, tr) =
         (Inr (), [t \<leftarrow> ts. \<not> ended_in evs t],
          failed @ [t \<leftarrow> ts. ended_in evs t \<and> download_failed_in evs t], (w', tr @ evs)))"
  proof
    assume d: "distinct ts"
    from auto_download_for_spec [OF d d, of env a failed w tr]
    obtain w' evs where
      "auto_download_for env a ts ts failed (w, tr) =
         (Inr (), [t \<leftarrow> ts. \<not> (t \<in> set ts \<and> ended_in evs t)],
          failed @ [t \<leftarrow> ts. ended_in evs t \<and> download_failed_in evs t], (w', tr @ evs))"
      by blast
    moreover have "[t \<leftarrow> ts. \<not> (t \<in> set ts \<and> ended_in evs t)] = [t \<leftarrow> ts. \<not> ended_in evs t]"
      by (intro filter_cong) auto
    ultimately show "\<exists>w' evs. auto_download_for env a ts ts failed (w, tr) =
           (Inr (), [t \<leftarrow> ts. \<not> ended_in evs t],
            failed @ [t \<leftarrow> ts. ended_in evs t \<and> download_failed_in evs t], (w', tr @ evs))"
      by auto
  qed
  have 2: "auto_download_tool fuel env a ts st = Some (r, ts', fl, st') \<longrightarrow>
      ts' = [] \<and> r = (if fl \<noteq> [] then Inl (DownloadFailed (Finally_failed fl)) else Inr ())"
  proof
    assume t: "auto_download_tool fuel env a ts st = Some (r, ts', fl, st')"
    show "ts' = [] \<and> r = (if fl \<noteq> [] then Inl (DownloadFailed (Finally_failed fl)) else Inr ())"
    proof (cases "auto_download_while fuel env a ts [] st")
      case None
      with t show ?thesis by (simp add: auto_download_tool_def)
    next
      case (Some res)
      obtain r0 ts0 fl0 st0 where res: "res = (r0, ts0, fl0, st0)" by (cases res)
      from auto_download_while_exit [of fuel env a ts "[]" st r0 ts0 fl0 st0] Some res
      have "r0 = Inr ()" "ts0 = []" by auto
      with t Some res show ?thesis
        by (auto simp: auto_download_tool_def split: if_splits)
    qed
  qed
  have 3: "ts \<noteq> [] \<and> auto_download_for env a ts ts failed st = (r1, ts1, failed1, st1) \<longrightarrow>
      auto_download_while (Suc fuel) env a ts failed st =
        auto_download_while fuel env a ts1 failed1 st1"
    using auto_download_while_unroll [of ts env a failed st r1 ts1 failed1 st1 fuel] by blast
  have 4: "auto_download_while (Suc fuel) env a [] failed st = Some (Inr (), [], failed, st)"
    by simp
  have 5: "auto_download_while fuel env a ts [] st = Some (r0, ts0, fl0, st0) \<longrightarrow>
      auto_download_tool fuel env a ts st =
        Some (if fl0 \<noteq> [] then Inl (DownloadFailed (Finally_failed fl0)) else Inr (),
              [], fl0, st0)"
    by (rule impI) (rule auto_download_tool_of_while)
  have 6: "auto_download_while fuel env a ts [] st = None \<longrightarrow>
      auto_download_tool fuel env a ts st = None"
    by (simp add: auto_download_tool_def)
  have 7: "auto_download_tool fuel env a ts (w, tr) = Some (r2, ts2, fl2, (w2, tr2)) \<longrightarrow>
      (\<exists>evs. tr2 = tr @ evs \<and> fl2 = failures_of evs None \<and>
             (\<forall>t \<in> set ts. ended_in evs t))"
    by (rule impI) (rule auto_download_tool_trace)
  show ?thesis
    by (rule conjI [OF 1 conjI [OF 2 conjI [OF 3 conjI [OF 4 conjI [OF 5 conjI [OF 6 7]]]]]])
qed


theorem auto_download_tool_cycle_witness:
  "distinct [1, 2 :: task_id] \<and>
   (\<exists>w' evs.
      auto_download_for (scripted (\<lambda>t w. t = 1) (\<lambda>ts w. ([], [], [''f''])) (\<lambda>c w. 1)) args0
        [1, 2] [1, 2] [] (0, []) =
      (Inr (), [t \<leftarrow> [1, 2]. \<not> ended_in evs t],
       [] @ [t \<leftarrow> [1, 2]. ended_in evs t \<and> download_failed_in evs t], (w', [] @ evs))) \<and>
   auto_download_for (scripted (\<lambda>t w. t = 1) (\<lambda>ts w. ([], [], [''f''])) (\<lambda>c w. 1)) args0
        [1, 2] [1, 2] [] (0, []) =
      (Inr (), [2], [1],
       (6, [IsTaskEnd 1 True, GetTaskStatus [1],
            RunCmd [''download_path'', ''out'', ''f'', ''1048576'', ''true'', ''output_bid''] 1,
            RunDownload [1] (Inl (DownloadFailed (Output_failed ''f''))),
            IsTaskEnd 2 False, GetTaskStatus [2],
            RunCmd [''download_path'', ''out'', ''f'', ''1048576'', ''true'', ''output_bid''] 1,
            RunDownload [2] (Inl (DownloadFailed (Output_failed ''f'')))])) \<and>
   auto_download_tool 2 (scripted (\<lambda>t w. True) (\<lambda>ts w. ([], [], [''f''])) (\<lambda>c w. 1)) args0
        [3] (0, []) =
      Some (Inl (DownloadFailed (Finally_failed [3])), [], [3],
            (3, [IsTaskEnd 3 True, GetTaskStatus [3],
                 RunCmd [''download_path'', ''out'', ''f'', ''1048576'', ''true'', ''output_bid''] 1,
                 RunDownload [3] (Inl (DownloadFailed (Output_failed ''f'')))])) \<and>
   auto_download_while 3 E_late args0 [1, 2] [] (0, []) =
     auto_download_while 2 E_late args0 [2] [1]
       (6, [IsTaskEnd 1 True, GetTaskStatus [1],
            RunCmd [''download_path'', ''out'', ''f'', ''1048576'', ''true'', ''output_bid''] 1,
            RunDownload [1] (Inl (DownloadFailed (Output_failed ''f''))),
            IsTaskEnd 2 False, GetTaskStatus [2],
            RunCmd [''download_path'', ''out'', ''f'', ''1048576'', ''true'', ''output_bid''] 1,
            RunDownload [2] (Inl (DownloadFailed (Output_failed ''f'')))]) \<and>
   auto_download_tool 3 E_late args0 [1, 2] (0, []) =
     Some (Inl (DownloadFailed (Finally_failed [1, 2])), [], [1, 2],
       (9, [IsTaskEnd 1 True, GetTaskStatus [1],
            RunCmd [''download_path'', ''out'', ''f'', ''1048576'', ''true'', ''output_bid''] 1,
            RunDownload [1] (Inl (DownloadFailed (Output_failed ''f''))),
            IsTaskEnd 2 False, GetTaskStatus [2],
            RunCmd [''download_path'', ''out'', ''f'', ''1048576'', ''true'', ''output_bid''] 1,
            RunDownload [2] (Inl (DownloadFailed (Output_failed ''f''))),
            IsTaskEnd 2 True, GetTaskStatus [2],
            RunCmd [''download_path'', ''out'', ''f'', ''1048576'', ''true'', ''output_bid''] 1,
            RunDownload [2] (Inl (DownloadFailed (Output_failed ''f'')))])) \<and>
   failures_of
     [IsTaskEnd 1 True, GetTaskStatus [1],
      RunCmd [''download_path'', ''out'', ''f'', ''1048576'', ''true'', ''output_bid''] 1,
      RunDownload [1] (Inl (DownloadFailed (Output_failed ''f''))),
      IsTaskEnd 2 False, GetTaskStatus [2],
      RunCmd [''download_path'', ''out'', ''f'', ''1048576'', ''true'', ''output_bid''] 1,
      RunDownload [2] (Inl (DownloadFailed (Output_failed ''f''))),
      IsTaskEnd 2 True, GetTaskStatus [2],
      RunCmd [''download_path'', ''out'', ''f'', ''1048576'', ''true'', ''output_bid''] 1,
      RunDownload [2] (Inl (DownloadFailed (Output_failed ''f'')))] None = [1, 2]"
proof -
  define tr1 :: "event list" where
    "tr1 = [IsTaskEnd 1 True, GetTaskStatus [1],
            RunCmd [''download_path'', ''out'', ''f'', ''1048576'', ''true'', ''output_bid''] 1,
            RunDownload [1] (Inl (DownloadFailed (Output_failed ''f''))),
            IsTaskEnd 2 False, GetTaskStatus [2],
            RunCmd [''download_path'', ''out'', ''f'', ''1048576'', ''true'', ''output_bid''] 1,
            RunDownload [2] (Inl (DownloadFailed (Output_failed ''f'')))]"
  define tr2 :: "event list" where
    "tr2 = [IsTaskEnd 1 True, GetTaskStatus [1],
            RunCmd [''download_path'', ''out'', ''f'', ''1048576'', ''true'', ''output_bid''] 1,
            RunDownload [1] (Inl (DownloadFailed (Output_failed ''f''))),
            IsTaskEnd 2 False, GetTaskStatus [2],
            RunCmd [''download_path'', ''out'', ''f'', ''1048576'', ''true'', ''output_bid''] 1,
            RunDownload [2] (Inl (DownloadFailed (Output_failed ''f''))),
            IsTaskEnd 2 True, GetTaskStatus [2],
            RunCmd [''download_path'', ''out'', ''f'', ''1048576'', ''true'', ''output_bid''] 1,
            RunDownload [2] (Inl (DownloadFailed (Output_failed ''f'')))]"
  have d: "distinct [1, 2 :: task_id]" by simp
  have c: "auto_download_for (scripted (\<lambda>t w. t = 1) (\<lambda>ts w. ([], [], [''f''])) (\<lambda>c w. 1)) args0
        [1, 2] [1, 2] [] (0, []) =
      (Inr (), [2], [1],
       (6, [IsTaskEnd 1 True, GetTaskStatus [1],
            RunCmd [''download_path'', ''out'', ''f'', ''1048576'', ''true'', ''output_bid''] 1,
            RunDownload [1] (Inl (DownloadFailed (Output_failed ''f''))),
            IsTaskEnd 2 False, GetTaskStatus [2],
            RunCmd [''download_path'', ''out'', ''f'', ''1048576'', ''true'', ''output_bid''] 1,
            RunDownload [2] (Inl (DownloadFailed (Output_failed ''f'')))]))"
    by code_simp
  have t: "auto_download_tool 2 (scripted (\<lambda>t w. True) (\<lambda>ts w. ([], [], [''f''])) (\<lambda>c w. 1)) args0
        [3] (0, []) =
      Some (Inl (DownloadFailed (Finally_failed [3])), [], [3],
            (3, [IsTaskEnd 3 True, GetTaskStatus [3],
                 RunCmd [''download_path'', ''out'', ''f'', ''1048576'', ''true'', ''output_bid''] 1,
                 RunDownload [3] (Inl (DownloadFailed (Output_failed ''f'')))]))"
    by code_simp
  have e: "\<exists>w' evs.
      auto_download_for (scripted (\<lambda>t w. t = 1) (\<lambda>ts w. ([], [], [''f''])) (\<lambda>c w. 1)) args0
        [1, 2] [1, 2] [] (0, []) =
      (Inr (), [t \<leftarrow> [1, 2]. \<not> ended_in evs t],
       [] @ [t \<leftarrow> [1, 2]. ended_in evs t \<and> download_failed_in evs t], (w', [] @ evs))"
    using auto_download_tool_cycle
         [where ts = "[1, 2]" and failed = "[]" and w = 0 and tr = "[]" and a = args0
            and env = "scripted (\<lambda>t w. t = 1) (\<lambda>ts w. ([], [], [''f''])) (\<lambda>c w. 1)",
          THEN conjunct1] d
    by (rule mp)
  have ne: "[1, 2 :: task_id] \<noteq> []" by simp
  have c1: "auto_download_for E_late args0 [1, 2] [1, 2] [] (0, []) = (Inr (), [2], [1], (6, tr1))"
    unfolding tr1_def by code_simp
  have u: "auto_download_while (Suc 2) E_late args0 [1, 2] [] (0, []) =
           auto_download_while 2 E_late args0 [2] [1] (6, tr1)"
    using auto_download_tool_cycle
         [where ts = "[1, 2]" and failed = "[]" and st = "(0, [])" and a = args0
            and env = E_late and fuel = 2 and ?r1.0 = "Inr ()" and ?ts1.0 = "[2]"
            and ?failed1.0 = "[1]" and ?st1.0 = "(6, tr1)",
          THEN conjunct2, THEN conjunct2, THEN conjunct1] conjI [OF ne c1]
    by (rule mp)
  have u3: "auto_download_while 3 E_late args0 [1, 2] [] (0, []) =
           auto_download_while 2 E_late args0 [2] [1] (6, tr1)"
    using u by (simp only: numeral_3_eq_3 numeral_2_eq_2)
  have t2: "auto_download_tool 3 E_late args0 [1, 2] (0, []) =
     Some (Inl (DownloadFailed (Finally_failed [1, 2])), [], [1, 2], (9, tr2))"
    unfolding tr2_def by code_simp
  have "\<exists>evs. tr2 = [] @ evs \<and> [1, 2] = failures_of evs None \<and>
          (\<forall>t \<in> set [1, 2]. ended_in evs t)"
    using auto_download_tool_cycle
         [where ts = "[1, 2]" and w = 0 and tr = "[]" and a = args0
            and env = E_late and fuel = 3
            and ?r2.0 = "Inl (DownloadFailed (Finally_failed [1, 2]))" and ?ts2.0 = "[]"
            and ?fl2.0 = "[1, 2]" and ?w2.0 = 9 and ?tr2.0 = tr2,
          THEN conjunct2, THEN conjunct2, THEN conjunct2, THEN conjunct2, THEN conjunct2,
          THEN conjunct2] t2
    by (rule mp)
  then have f: "failures_of tr2 None = [1, 2]" by auto
  show ?thesis
    using d e c t u3 t2 f unfolding tr1_def tr2_def
    by (intro conjI)
qed

section \<open>\<open>thread_pool_upload\<close>\<close>

lemma kwargs_pop_absent:
  "map_of kw key = None \<Longrightarrow> kwargs_pop key kw = Inl (KeyError key)"
  by (simp add: kwargs_pop_def)

lemma kwargs_pop_present:
  "map_of kw key = Some v \<Longrightarrow>
   kwargs_pop key kw = Inr (v, filter (\<lambda>kv. fst kv \<noteq> key) kw)"
  by (simp add: kwargs_pop_def)

lemma map_of_filter_key: "map_of (filter (\<lambda>kv. fst kv \<noteq> key) kw) key = None"
  by (induction kw) auto

lemma map_of_filter_other:
  "key' \<noteq> key \<Longrightarrow> map_of (filter (\<lambda>kv. fst kv \<noteq> key) kw) key' = map_of kw key'"
  by (induction kw) auto

lemma thread_pool_upload_for_ok:
  "map_of kw ''upload_json_path'' = None \<Longrightarrow>
   thread_pool_upload_for upload_pool kw is submitted =
     (Inr (), submitted @ map (\<lambda>i. \<lparr>unit_upload_json_path = upload_pool ! i, unit_is_db = False,
                                       unit_kwargs = kw\<rparr>) is)"
  by (induction "is" arbitrary: submitted) simp_all

lemma thread_pool_upload_for_repeat:
  "map_of kw ''upload_json_path'' \<noteq> None \<Longrightarrow> is \<noteq> [] \<Longrightarrow>
   thread_pool_upload_for upload_pool kw is submitted =
     (Inl (TypeError ''upload_json_path''), submitted)"
  by (cases "is") simp_all

lemma upload_asset_body_no_db:
  "upload_asset_body env db_type p False kw (w, tr) =
     (Inr (fst (run_upload_cmd env (upload_cmd_params p kw) None kw w)),
      (snd (run_upload_cmd env (upload_cmd_params p kw) None kw w),
       tr @ [RunUploadCmd (upload_cmd_params p kw) None
               (fst (run_upload_cmd env (upload_cmd_params p kw) None kw w))]))"
  by (simp add: upload_asset_body_def call_run_upload_cmd_def split: prod.splits)

lemma upload_retry_no_db:
  "d + times' = 9 \<Longrightarrow>
   \<exists>r w' evs. upload_retry exhausted (upload_asset_body env db_type p False kw) times' (w, tr) =
       Some (r, (w', tr @ evs)) \<and>
     list_all is_run_upload_cmd evs \<and> evs \<noteq> [] \<and> length evs \<le> Suc d"
proof (induction d arbitrary: times' w tr)
  case 0
  let ?c = "upload_cmd_params p kw"
  let ?res = "fst (run_upload_cmd env ?c None kw w)"
  let ?w1 = "snd (run_upload_cmd env ?c None kw w)"
  from 0 have t: "times' = 9" by simp
  have "upload_retry exhausted (upload_asset_body env db_type p False kw) times' (w, tr) =
      Some (if ?res \<noteq> 0 then Inl exhausted else Inr True, (?w1, tr @ [RunUploadCmd ?c None ?res]))"
    by (subst upload_retry.simps) (simp add: upload_asset_body_no_db t)
  then show ?case by force
next
  case (Suc d)
  let ?c = "upload_cmd_params p kw"
  let ?res = "fst (run_upload_cmd env ?c None kw w)"
  let ?w1 = "snd (run_upload_cmd env ?c None kw w)"
  from Suc.prems have t: "times' \<noteq> 9" "d + (times' + 1) = 9" by simp_all
  show ?case
  proof (cases "?res = 0")
    case True
    then have "upload_retry exhausted (upload_asset_body env db_type p False kw) times' (w, tr) =
        Some (Inr True, (?w1, tr @ [RunUploadCmd ?c None ?res]))"
      by (subst upload_retry.simps) (simp add: upload_asset_body_no_db)
    then show ?thesis by force
  next
    case False
    from Suc.IH [OF t(2), of ?w1 "tr @ [RunUploadCmd ?c None ?res]"]
    obtain r w' evs where
      i: "upload_retry exhausted (upload_asset_body env db_type p False kw) (times' + 1)
            (?w1, tr @ [RunUploadCmd ?c None ?res]) =
          Some (r, (w', (tr @ [RunUploadCmd ?c None ?res]) @ evs))"
      and l: "list_all is_run_upload_cmd evs" "length evs \<le> Suc d"
      by blast
    from False t(1) i
    have "upload_retry exhausted (upload_asset_body env db_type p False kw) times' (w, tr) =
        Some (r, (w', tr @ (RunUploadCmd ?c None ?res # evs)))"
      by (subst upload_retry.simps) (simp add: upload_asset_body_no_db)
    moreover have "list_all is_run_upload_cmd (RunUploadCmd ?c None ?res # evs)"
      using l by simp
    moreover have "RunUploadCmd ?c None ?res # evs \<noteq> []"
      "length (RunUploadCmd ?c None ?res # evs) \<le> Suc (Suc d)"
      using l by simp_all
    ultimately show ?thesis by blast
  qed
qed

lemma upload_asset_no_db:
  "\<exists>r w' evs. upload_asset exhausted env db_type p False kw (w, tr) = Some (r, (w', tr @ evs)) \<and>
     list_all is_run_upload_cmd evs \<and> length evs \<le> 10"
proof (cases "filter (\<lambda>key. key \<notin> set upload_asset_keywords) (map fst kw)")
  case Nil
  from upload_retry_no_db [of 9 0 exhausted env db_type p kw w tr]
  obtain r w' evs where
    "upload_retry exhausted (upload_asset_body env db_type p False kw) 0 (w, tr) =
       Some (r, (w', tr @ evs))" "list_all is_run_upload_cmd evs" "length evs \<le> 10"
    by auto
  with Nil have "upload_asset exhausted env db_type p False kw (w, tr) = Some (r, (w', tr @ evs)) \<and>
     list_all is_run_upload_cmd evs \<and> length evs \<le> 10"
    by (simp add: upload_asset_def)
  then show ?thesis by blast
next
  case (Cons key others)
  then have "upload_asset exhausted env db_type p False kw (w, tr) =
      Some (Inl (TypeError key), (w, tr @ [])) \<and> list_all is_run_upload_cmd [] \<and>
      length ([] :: event list) \<le> 10"
    by (simp add: upload_asset_def)
  then show ?thesis by blast
qed


text \<open>
  C10 as stated fails. With \<open>is_db\<close> among the keyword arguments, a keyword
  \<open>upload_json_path\<close> makes the call raise \<open>TypeError\<close>, and a pool size 0 makes it raise
  \<open>ValueError\<close>; in both runs nothing is submitted for the one element of \<open>upload_pool\<close>.
\<close>

theorem thread_pool_upload_refuses:
  "thread_pool_upload [''a.json''] (Some 10)
      [(''is_db'', PyBool True), (''upload_json_path'', PyStr ''x.json'')] =
     (Inl (TypeError ''upload_json_path''), []) \<and>
   thread_pool_upload [''a.json''] (Some 0) [(''is_db'', PyBool True)] =
     (Inl (ValueError ''max_workers must be greater than 0''), [])"
  by code_simp

text \<open>
  C10, amended. \<open>thread_pool_upload\<close>: when the keyword arguments have no \<open>is_db\<close>, the
  call raises \<open>KeyError\<close> and nothing has been submitted. When they have one, whatever its
  value: a pool size that is a number not above 0 raises \<open>ValueError\<close>, and otherwise a
  keyword \<open>upload_json_path\<close> raises \<open>TypeError\<close> at the first element of \<open>upload_pool\<close>,
  in both cases with nothing submitted; in every other case the call submits exactly one
  unit for each element of \<open>upload_pool\<close>, in order, every unit has \<open>is_db = False\<close> and no
  \<open>is_db\<close> left among its keyword arguments, and running a unit, retries included, ends
  and is made of command runs only: no ini file is written.
\<close>

theorem thread_pool_upload_is_db:
  "(map_of kw ''is_db'' = None \<longrightarrow>
      thread_pool_upload upload_pool pool_size kw = (Inl (KeyError ''is_db''), [])) \<and>
   (map_of kw ''is_db'' = Some v \<and> \<not> pool_size_ok pool_size \<longrightarrow>
      thread_pool_upload upload_pool pool_size kw =
        (Inl (ValueError ''max_workers must be greater than 0''), [])) \<and>
   (map_of kw ''is_db'' = Some v \<and> pool_size_ok pool_size \<and>
      map_of kw ''upload_json_path'' \<noteq> None \<and> upload_pool \<noteq> [] \<longrightarrow>
      thread_pool_upload upload_pool pool_size kw = (Inl (TypeError ''upload_json_path''), [])) \<and>
   (map_of kw ''is_db'' = Some v \<and> pool_size_ok pool_size \<and>
      (map_of kw ''upload_json_path'' = None \<or> upload_pool = []) \<longrightarrow>
      (\<exists>units. thread_pool_upload upload_pool pool_size kw = (Inr (), units) \<and>
         map unit_upload_json_path units = upload_pool \<and>
         list_all (\<lambda>u. \<not> unit_is_db u \<and> map_of (unit_kwargs u) ''is_db'' = None \<and>
                      (\<exists>r w' evs. run_unit exhausted env db_type u (w, tr) =
                                       Some (r, (w', tr @ evs)) \<and>
                                     list_all is_run_upload_cmd evs)) units))"
proof -
  let ?kw = "filter (\<lambda>kv. fst kv \<noteq> ''is_db'') kw"
  have path: "map_of ?kw ''upload_json_path'' = map_of kw ''upload_json_path''"
    by (rule map_of_filter_other) simp
  have 1: "map_of kw ''is_db'' = None \<longrightarrow>
      thread_pool_upload upload_pool pool_size kw = (Inl (KeyError ''is_db''), [])"
    by (simp add: thread_pool_upload_def kwargs_pop_absent)
  have 2: "map_of kw ''is_db'' = Some v \<and> \<not> pool_size_ok pool_size \<longrightarrow>
      thread_pool_upload upload_pool pool_size kw =
        (Inl (ValueError ''max_workers must be greater than 0''), [])"
    by (simp add: thread_pool_upload_def kwargs_pop_present)
  have 3: "map_of kw ''is_db'' = Some v \<and> pool_size_ok pool_size \<and>
      map_of kw ''upload_json_path'' \<noteq> None \<and> upload_pool \<noteq> [] \<longrightarrow>
      thread_pool_upload upload_pool pool_size kw = (Inl (TypeError ''upload_json_path''), [])"
  proof
    assume a: "map_of kw ''is_db'' = Some v \<and> pool_size_ok pool_size \<and>
      map_of kw ''upload_json_path'' \<noteq> None \<and> upload_pool \<noteq> []"
    then have "map_of ?kw ''upload_json_path'' \<noteq> None" "[0 ..< length upload_pool] \<noteq> []"
      using path by simp_all
    from thread_pool_upload_for_repeat [OF this, of upload_pool "[]"] a
    show "thread_pool_upload upload_pool pool_size kw = (Inl (TypeError ''upload_json_path''), [])"
      by (simp add: thread_pool_upload_def kwargs_pop_present)
  qed
  have 4: "map_of kw ''is_db'' = Some v \<and> pool_size_ok pool_size \<and>
      (map_of kw ''upload_json_path'' = None \<or> upload_pool = []) \<longrightarrow>
      (\<exists>units. thread_pool_upload upload_pool pool_size kw = (Inr (), units) \<and>
         map unit_upload_json_path units = upload_pool \<and>
         list_all (\<lambda>u. \<not> unit_is_db u \<and> map_of (unit_kwargs u) ''is_db'' = None \<and>
                      (\<exists>r w' evs. run_unit exhausted env db_type u (w, tr) =
                                       Some (r, (w', tr @ evs)) \<and>
                                     list_all is_run_upload_cmd evs)) units)"
  proof
    assume a: "map_of kw ''is_db'' = Some v \<and> pool_size_ok pool_size \<and>
      (map_of kw ''upload_json_path'' = None \<or> upload_pool = [])"
    let ?units = "map (\<lambda>i. \<lparr>unit_upload_json_path = upload_pool ! i, unit_is_db = False,
                              unit_kwargs = ?kw\<rparr>) [0 ..< length upload_pool]"
    have f: "thread_pool_upload_for upload_pool ?kw [0 ..< length upload_pool] [] = (Inr (), ?units)"
    proof (cases "upload_pool = []")
      case True
      then show ?thesis by simp
    next
      case False
      with a path have "map_of ?kw ''upload_json_path'' = None" by simp
      from thread_pool_upload_for_ok [OF this, of upload_pool "[0 ..< length upload_pool]" "[]"]
      show ?thesis by simp
    qed
    have u1: "thread_pool_upload upload_pool pool_size kw = (Inr (), ?units)"
      using a f by (simp add: thread_pool_upload_def kwargs_pop_present)
    have u2: "map unit_upload_json_path ?units = upload_pool"
      by (simp add: comp_def map_nth)
    have u3: "list_all (\<lambda>u. \<not> unit_is_db u \<and> map_of (unit_kwargs u) ''is_db'' = None \<and>
                      (\<exists>r w' evs. run_unit exhausted env db_type u (w, tr) =
                                       Some (r, (w', tr @ evs)) \<and>
                                     list_all is_run_upload_cmd evs)) ?units"
    proof -
      have "\<exists>r w' evs. upload_asset exhausted env db_type p False ?kw (w, tr) =
              Some (r, (w', tr @ evs)) \<and> list_all is_run_upload_cmd evs" for p
        using upload_asset_no_db [of exhausted env db_type p ?kw w tr] by blast
      then show ?thesis
        by (simp add: list_all_iff map_of_filter_key run_unit_def)
    qed
    show "\<exists>units. thread_pool_upload upload_pool pool_size kw = (Inr (), units) \<and>
         map unit_upload_json_path units = upload_pool \<and>
         list_all (\<lambda>u. \<not> unit_is_db u \<and> map_of (unit_kwargs u) ''is_db'' = None \<and>
                      (\<exists>r w' evs. run_unit exhausted env db_type u (w, tr) =
                                       Some (r, (w', tr @ evs)) \<and>
                                     list_all is_run_upload_cmd evs)) units"
      by (rule exI [of _ ?units]) (rule conjI [OF u1 conjI [OF u2 u3]])
  qed
  show ?thesis by (rule conjI [OF 1 conjI [OF 2 conjI [OF 3 4]]])
qed

theorem thread_pool_upload_is_db_witness:
  "thread_pool_upload [''a.json'', ''b.json''] (Some 10) [(''max_speed'', PyStr ''5'')] =
     (Inl (KeyError ''is_db''), []) \<and>
   thread_pool_upload [''a.json''] (Some 0) [(''is_db'', PyBool True)] =
     (Inl (ValueError ''max_workers must be greater than 0''), []) \<and>
   thread_pool_upload [''a.json''] (Some 10)
      [(''is_db'', PyBool True), (''upload_json_path'', PyStr ''x.json'')] =
     (Inl (TypeError ''upload_json_path''), []) \<and>
   thread_pool_upload [''a.json'', ''b.json''] (Some 10)
      [(''is_db'', PyBool True), (''max_speed'', PyInt 5)] =
     (Inr (),
      [\<lparr>unit_upload_json_path = ''a.json'', unit_is_db = False,
         unit_kwargs = [(''max_speed'', PyInt 5)]\<rparr>,
       \<lparr>unit_upload_json_path = ''b.json'', unit_is_db = False,
         unit_kwargs = [(''max_speed'', PyInt 5)]\<rparr>]) \<and>
   (\<exists>units. thread_pool_upload [''a.json'', ''b.json''] (Some 10)
              [(''is_db'', PyBool True), (''max_speed'', PyInt 5)] = (Inr (), units) \<and>
      map unit_upload_json_path units = [''a.json'', ''b.json''] \<and>
      list_all (\<lambda>u. \<not> unit_is_db u \<and> map_of (unit_kwargs u) ''is_db'' = None \<and>
                   (\<exists>r w' evs. run_unit (RayvisionError 200024 ''a.json'') E1 ''sqlite'' u (0, []) =
                                    Some (r, (w', [] @ evs)) \<and>
                                  list_all is_run_upload_cmd evs)) units)"
proof -
  note t = thread_pool_upload_is_db
  have a: "map_of [(''max_speed'', PyStr ''5'')] ''is_db'' = None" by simp
  have 1: "thread_pool_upload [''a.json'', ''b.json''] (Some 10) [(''max_speed'', PyStr ''5'')] =
     (Inl (KeyError ''is_db''), [])"
    by (rule t [THEN conjunct1, THEN mp, OF a])
  have b: "map_of [(''is_db'', PyBool True)] ''is_db'' = Some (PyBool True) \<and>
           \<not> pool_size_ok (Some 0)"
    by (simp add: pool_size_ok_def)
  have 2: "thread_pool_upload [''a.json''] (Some 0) [(''is_db'', PyBool True)] =
     (Inl (ValueError ''max_workers must be greater than 0''), [])"
    by (rule t [THEN conjunct2, THEN conjunct1, THEN mp, OF b])
  have c: "map_of [(''is_db'', PyBool True), (''upload_json_path'', PyStr ''x.json'')] ''is_db'' =
             Some (PyBool True) \<and> pool_size_ok (Some 10) \<and>
           map_of [(''is_db'', PyBool True), (''upload_json_path'', PyStr ''x.json'')]
             ''upload_json_path'' \<noteq> None \<and> [''a.json''] \<noteq> []"
    by (simp add: pool_size_ok_def)
  have 3: "thread_pool_upload [''a.json''] (Some 10)
      [(''is_db'', PyBool True), (''upload_json_path'', PyStr ''x.json'')] =
     (Inl (TypeError ''upload_json_path''), [])"
    by (rule t [THEN conjunct2, THEN conjunct2, THEN conjunct1, THEN mp, OF c])
  have 4: "thread_pool_upload [''a.json'', ''b.json''] (Some 10)
      [(''is_db'', PyBool True), (''max_speed'', PyInt 5)] =
     (Inr (),
      [\<lparr>unit_upload_json_path = ''a.json'', unit_is_db = False,
         unit_kwargs = [(''max_speed'', PyInt 5)]\<rparr>,
       \<lparr>unit_upload_json_path = ''b.json'', unit_is_db = False,
         unit_kwargs = [(''max_speed'', PyInt 5)]\<rparr>])"
    by code_simp
  have d: "map_of [(''is_db'', PyBool True), (''max_speed'', PyInt 5)] ''is_db'' =
             Some (PyBool True) \<and> pool_size_ok (Some 10) \<and>
           (map_of [(''is_db'', PyBool True), (''max_speed'', PyInt 5)] ''upload_json_path'' = None \<or>
            [''a.json'', ''b.json''] = [])"
    by (simp add: pool_size_ok_def)
  note 5 = t [where exhausted = "RayvisionError 200024 ''a.json''" and env = E1
                and db_type = "''sqlite''" and w = 0 and tr = "[]",
              THEN conjunct2, THEN conjunct2, THEN conjunct2, THEN mp, OF d]
  show ?thesis by (rule conjI [OF 1 conjI [OF 2 conjI [OF 3 conjI [OF 4 5]]]])
qed

section \<open>\<open>download_block\<close> with the default download type\<close>

text \<open>
  C3, at the default \<open>download_type = None\<close>. \<open>download_block\<close> is called for the working
  set \<open>[7]\<close>, and the status poll reports the code \<open>'25'\<close>. The call returns \<open>True\<close> with
  the working set empty, and the trace holds the status poll and the call of
  \<open>_run_cc_download\<close> only: task 7 left the working set and no transfer command was run.
\<close>

theorem download_block_default_type_no_transfer:
  "download_block 2 (scripted (\<lambda>t w. False) (\<lambda>ts w. ([''25''], [], [])) (\<lambda>c w. 0))
      args0 NoType [7] NoPath (0, [])
   = Some (Inr True, [], 1, [GetTaskStatus [7], RunCcDownload [7] (Inr ())])"
  by code_simp

section \<open>The transfer routines and the polling loops\<close>

lemma create_cmd_eq:
  "create_cmd env c out (w, tr) =
     (if fst (run_cmd env c w) \<noteq> 0 then Inl (DownloadFailed (Output_failed out)) else Inr (),
      (snd (run_cmd env c w), tr @ [RunCmd c (fst (run_cmd env c w))]))"
  by (simp add: create_cmd_def call_run_cmd_eq)



lemma for_task_id_shrinks:
  "for_task_id body i ts st = (r, ts', st') \<Longrightarrow>
   length ts' \<le> length ts \<and> mset ts' \<subseteq># mset ts"
proof (induction body i ts st rule: for_task_id.induct)
  case (1 body i ts st)
  show ?case
  proof (cases "i < length ts")
    case False
    with "1.prems" show ?thesis by (simp add: for_task_id.simps)
  next
    case True
    obtain x st1 where b: "body (ts ! i) ts st = (x, st1)" by (cases "body (ts ! i) ts st")
    show ?thesis
    proof (cases x)
      case (Inl e)
      with True b "1.prems" show ?thesis by (simp add: for_task_id.simps)
    next
      case (Inr removes)
      let ?ts1 = "if removes then remove1 (ts ! i) ts else ts"
      from True b Inr "1.prems" have "for_task_id body (Suc i) ?ts1 st1 = (r, ts', st')"
        by (simp add: for_task_id.simps)
      from "1.IH" [OF True b [symmetric] Inr this]
      have "length ts' \<le> length ?ts1 \<and> mset ts' \<subseteq># mset ?ts1" .
      moreover have "length ?ts1 \<le> length ts \<and> mset ?ts1 \<subseteq># mset ts"
        by (simp add: length_remove1)
      ultimately show ?thesis
        by (meson le_trans subset_mset.order_trans)
    qed
  qed
qed






section \<open>The working set only shrinks\<close>



section \<open>Which errors leave the loops\<close>











section \<open>One execution of a loop body\<close>

lemma run_cc_download_for_cmds:
  "\<exists>r w' cmds. run_cc_download_for env a suffix ts (w, tr) = (r, (w', tr @ cmds)) \<and>
      list_all is_run_cmd cmds \<and>
      (r = Inr () \<or> (\<exists>m. r = Inl (DownloadFailed (Output_failed m))))"
proof (induction ts arbitrary: w tr)
  case Nil
  show ?case by simp
next
  case (Cons t ts)
  let ?c = "[''download_path'', arg_local_path a, str_int t @ suffix,
             speed_or_default (arg_max_speed a), arg_filename_format a, ''output_bid'']"
  show ?case
  proof (cases "fst (run_cmd env ?c w) = 0")
    case False
    then have "run_cc_download_for env a suffix (t # ts) (w, tr) =
        (Inl (DownloadFailed (Output_failed (str_int t @ suffix))),
         (snd (run_cmd env ?c w), tr @ [RunCmd ?c (fst (run_cmd env ?c w))]))
       \<and> list_all is_run_cmd [RunCmd ?c (fst (run_cmd env ?c w))]"
      by (simp add: create_cmd_eq)
    then show ?thesis by blast
  next
    case True
    from Cons.IH [of "snd (run_cmd env ?c w)" "tr @ [RunCmd ?c 0]"]
    obtain r w' cmds where
      "run_cc_download_for env a suffix ts (snd (run_cmd env ?c w), tr @ [RunCmd ?c 0]) =
         (r, (w', (tr @ [RunCmd ?c 0]) @ cmds))"
      "list_all is_run_cmd cmds"
      "r = Inr () \<or> (\<exists>m. r = Inl (DownloadFailed (Output_failed m)))"
      by blast
    with True have "run_cc_download_for env a suffix (t # ts) (w, tr) =
          (r, (w', tr @ (RunCmd ?c 0 # cmds)))
        \<and> list_all is_run_cmd (RunCmd ?c 0 # cmds)
        \<and> (r = Inr () \<or> (\<exists>m. r = Inl (DownloadFailed (Output_failed m))))"
      by (simp add: create_cmd_eq)
    then show ?thesis by blast
  qed
qed

lemma run_cc_download_cmds:
  "\<exists>r w' cmds. run_cc_download env a download_type ts (w, tr) =
        (r, (w', tr @ cmds @ [RunCcDownload ts r])) \<and>
      list_all is_run_cmd cmds \<and>
      (r = Inr () \<or> (\<exists>m. r = Inl (DownloadFailed (Output_failed m))))"
proof -
  have "\<exists>r w' cmds.
      (if download_type = Literal ''block'' then run_cc_download_for env a at_result ts (w, tr)
       else if download_type = Literal ''render'' then
         run_cc_download_for env a render_result ts (w, tr)
       else (Inr (), (w, tr))) = (r, (w', tr @ cmds)) \<and>
      list_all is_run_cmd cmds \<and>
      (r = Inr () \<or> (\<exists>m. r = Inl (DownloadFailed (Output_failed m))))"
    using run_cc_download_for_cmds [of env a at_result ts w tr]
      run_cc_download_for_cmds [of env a render_result ts w tr]
    by auto
  then obtain r w' cmds where
    "(if download_type = Literal ''block'' then run_cc_download_for env a at_result ts (w, tr)
       else if download_type = Literal ''render'' then
         run_cc_download_for env a render_result ts (w, tr)
       else (Inr (), (w, tr))) = (r, (w', tr @ cmds))"
    "list_all is_run_cmd cmds"
    "r = Inr () \<or> (\<exists>m. r = Inl (DownloadFailed (Output_failed m)))"
    by blast
  then have "run_cc_download env a download_type ts (w, tr) =
        (r, (w', tr @ cmds @ [RunCcDownload ts r])) \<and>
      list_all is_run_cmd cmds \<and>
      (r = Inr () \<or> (\<exists>m. r = Inl (DownloadFailed (Output_failed m))))"
    by (simp add: run_cc_download_def)
  then show ?thesis by blast
qed

lemma cmds_no_poll: "list_all is_run_cmd cmds \<Longrightarrow> filter is_get_task_status cmds = []"
proof (induction cmds)
  case Nil
  show ?case by simp
next
  case (Cons e cmds)
  then show ?case by (cases e) simp_all
qed

lemma cmds_not_fired: "list_all is_run_cmd cmds \<Longrightarrow> \<not> list_ex (is_cc_download_of t) cmds"
proof (induction cmds)
  case Nil
  show ?case by simp
next
  case (Cons e cmds)
  then show ?case by (cases e) simp_all
qed

text \<open>What one execution of the body of \<open>download_block\<close> does, by the polled list.\<close>

lemma download_block_body_illegal:
  "''45'' \<in> set (get_sub_status env (fst (get_task_status env ts w))) \<Longrightarrow>
   download_block_body env a dt t ts (w, tr) =
     (Inl AssertionError, (snd (get_task_status env ts w), tr @ [GetTaskStatus ts]))"
  by (simp add: download_block_body_def call_get_task_status_eq)

lemma download_block_body_idle:
  "''45'' \<notin> set (get_sub_status env (fst (get_task_status env ts w))) \<Longrightarrow>
   ''25'' \<notin> set (get_sub_status env (fst (get_task_status env ts w))) \<Longrightarrow>
   download_block_body env a dt t ts (w, tr) =
     (Inr False, (snd (get_task_status env ts w), tr @ [GetTaskStatus ts]))"
  by (simp add: download_block_body_def call_get_task_status_eq)

lemma download_block_body_fires:
  assumes "''45'' \<notin> set (get_sub_status env (fst (get_task_status env ts w)))"
    and "''25'' \<in> set (get_sub_status env (fst (get_task_status env ts w)))"
  shows "\<exists>r w' cmds. download_block_body env a dt t ts (w, tr) =
        (except_download_failed r, (w', tr @ GetTaskStatus ts # cmds @ [RunCcDownload [t] r])) \<and>
      list_all is_run_cmd cmds \<and>
      (r = Inr () \<or> (\<exists>m. r = Inl (DownloadFailed (Output_failed m))))"
proof -
  let ?w1 = "snd (get_task_status env ts w)"
  obtain r w2 cmds where
    rd: "run_cc_download env a dt [t] (?w1, tr @ [GetTaskStatus ts]) =
       (r, (w2, (tr @ [GetTaskStatus ts]) @ cmds @ [RunCcDownload [t] r]))"
    and c: "list_all is_run_cmd cmds"
    and r: "r = Inr () \<or> (\<exists>m. r = Inl (DownloadFailed (Output_failed m)))"
    using run_cc_download_cmds [of env a dt "[t]" ?w1 "tr @ [GetTaskStatus ts]"] by blast
  from assms rd have "download_block_body env a dt t ts (w, tr) =
        (except_download_failed r, (w2, tr @ GetTaskStatus ts # cmds @ [RunCcDownload [t] r]))"
    by (simp add: download_block_body_def call_get_task_status_eq)
  with c r show ?thesis by blast
qed

lemma download_block_body_shape:
  "\<exists>r w' evs. download_block_body env a dt t ts (w, tr) = (r, (w', tr @ GetTaskStatus ts # evs)) \<and>
     filter is_get_task_status evs = [] \<and>
     (r = Inl AssertionError \<longrightarrow> evs = []) \<and>
     (cc_fired (GetTaskStatus ts # evs) t \<longleftrightarrow>
        ''25'' \<in> set (get_sub_status env (fst (get_task_status env ts w))) \<and>
        ''45'' \<notin> set (get_sub_status env (fst (get_task_status env ts w))))"
proof -
  let ?sub = "get_sub_status env (fst (get_task_status env ts w))"
  consider (illegal) "''45'' \<in> set ?sub"
    | (fires) "''45'' \<notin> set ?sub" "''25'' \<in> set ?sub"
    | (idle) "''45'' \<notin> set ?sub" "''25'' \<notin> set ?sub"
    by blast
  then show ?thesis
  proof cases
    case illegal
    from download_block_body_illegal [OF this, of a dt t tr] illegal
    have "download_block_body env a dt t ts (w, tr) =
            (Inl AssertionError, (snd (get_task_status env ts w), tr @ GetTaskStatus ts # [])) \<and>
          filter is_get_task_status [] = [] \<and>
          (cc_fired (GetTaskStatus ts # []) t \<longleftrightarrow> ''25'' \<in> set ?sub \<and> ''45'' \<notin> set ?sub)"
      by (simp add: cc_fired_def)
    then show ?thesis by blast
  next
    case idle
    from download_block_body_idle [OF this, of a dt t tr] idle
    have "download_block_body env a dt t ts (w, tr) =
            (Inr False, (snd (get_task_status env ts w), tr @ GetTaskStatus ts # [])) \<and>
          filter is_get_task_status [] = [] \<and>
          (cc_fired (GetTaskStatus ts # []) t \<longleftrightarrow> ''25'' \<in> set ?sub \<and> ''45'' \<notin> set ?sub)"
      by (simp add: cc_fired_def)
    then show ?thesis by blast
  next
    case fires
    from download_block_body_fires [OF this, of a dt t tr]
    obtain r w' cmds where
      b: "download_block_body env a dt t ts (w, tr) =
        (except_download_failed r, (w', tr @ GetTaskStatus ts # cmds @ [RunCcDownload [t] r]))"
      and c: "list_all is_run_cmd cmds"
      and r: "r = Inr () \<or> (\<exists>m. r = Inl (DownloadFailed (Output_failed m)))" by blast
    have "filter is_get_task_status (cmds @ [RunCcDownload [t] r]) = []"
      using cmds_no_poll [OF c] by simp
    moreover have "cc_fired (GetTaskStatus ts # cmds @ [RunCcDownload [t] r]) t"
      by (simp add: cc_fired_def)
    moreover from r have "except_download_failed r \<noteq> Inl AssertionError" by auto
    ultimately show ?thesis using b fires by blast
  qed
qed


lemma is_done_iff:
  "is_done sub \<longleftrightarrow> card (set sub) = 1 \<or> set sub = {''25'', ''30''}"
proof -
  have s: "sorted_list_of_set {''25'', ''30''} = [''25'', ''30'']"
    by code_simp
  have "card (set sub) = 2 \<and> [''25'', ''30''] = sorted_list_of_set (set sub)
          \<longleftrightarrow> set sub = {''25'', ''30''}"
  proof
    assume "card (set sub) = 2 \<and> [''25'', ''30''] = sorted_list_of_set (set sub)"
    then have "set (sorted_list_of_set (set sub)) = set [''25'', ''30'']" by simp
    then show "set sub = {''25'', ''30''}" by simp
  next
    assume e: "set sub = {''25'', ''30''}"
    then have "card (set sub) = 2" by simp
    with e s show "card (set sub) = 2 \<and> [''25'', ''30''] = sorted_list_of_set (set sub)"
      by simp
  qed
  then show ?thesis by (simp add: is_done_def)
qed

lemma cc_body_illegal:
  "''45'' \<in> set (get_sub_status env (fst (get_task_status env ts w))) \<Longrightarrow>
   cc_after_task_completed_body env a dt t ts (w, tr) =
     (Inl AssertionError, (snd (get_task_status env ts w), tr @ [GetTaskStatus ts]))"
  by (simp add: cc_after_task_completed_body_def call_get_task_status_eq)

lemma cc_body_idle:
  "''45'' \<notin> set (get_sub_status env (fst (get_task_status env ts w))) \<Longrightarrow>
   \<not> rebuild_complete (get_sub_status env (fst (get_task_status env ts w)))
        (get_render_type env (fst (get_task_status env ts w))) \<Longrightarrow>
   cc_after_task_completed_body env a dt t ts (w, tr) =
     (Inr False, (snd (get_task_status env ts w), tr @ [GetTaskStatus ts]))"
  by (auto simp: cc_after_task_completed_body_def call_get_task_status_eq rebuild_complete_def
        is_done_iff Let_def)

lemma cc_body_fires:
  assumes "''45'' \<notin> set (get_sub_status env (fst (get_task_status env ts w)))"
    and "rebuild_complete (get_sub_status env (fst (get_task_status env ts w)))
           (get_render_type env (fst (get_task_status env ts w)))"
  shows "\<exists>r x w' cmds. cc_after_task_completed_body env a dt t ts (w, tr) =
        (x, (w', tr @ GetTaskStatus ts # cmds @ [RunCcDownload [t] r])) \<and>
      list_all is_run_cmd cmds \<and> (x = Inl AssertionError \<longleftrightarrow> False)"
proof -
  let ?w1 = "snd (get_task_status env ts w)"
  obtain r w2 cmds where
    rd: "run_cc_download env a dt [t] (?w1, tr @ [GetTaskStatus ts]) =
       (r, (w2, (tr @ [GetTaskStatus ts]) @ cmds @ [RunCcDownload [t] r]))"
    and c: "list_all is_run_cmd cmds"
    and r: "r = Inr () \<or> (\<exists>m. r = Inl (DownloadFailed (Output_failed m)))"
    using run_cc_download_cmds [of env a dt "[t]" ?w1 "tr @ [GetTaskStatus ts]"] by blast
  let ?x = "case r of Inl e \<Rightarrow> Inl e | Inr u \<Rightarrow> Inr True"
  from assms rd have "cc_after_task_completed_body env a dt t ts (w, tr) =
        (?x, (w2, tr @ GetTaskStatus ts # cmds @ [RunCcDownload [t] r]))"
    by (auto simp: cc_after_task_completed_body_def call_get_task_status_eq rebuild_complete_def
          is_done_iff Let_def split: sum.splits)
  moreover from r have "?x \<noteq> Inl AssertionError" by auto
  ultimately show ?thesis using c by blast
qed

lemma cc_body_shape:
  "\<exists>r w' evs. cc_after_task_completed_body env a dt t ts (w, tr) =
        (r, (w', tr @ GetTaskStatus ts # evs)) \<and>
     filter is_get_task_status evs = [] \<and>
     (r = Inl AssertionError \<longrightarrow> evs = []) \<and>
     (cc_fired (GetTaskStatus ts # evs) t \<longleftrightarrow>
        rebuild_complete (get_sub_status env (fst (get_task_status env ts w)))
          (get_render_type env (fst (get_task_status env ts w))) \<and>
        ''45'' \<notin> set (get_sub_status env (fst (get_task_status env ts w))))"
proof -
  let ?sub = "get_sub_status env (fst (get_task_status env ts w))"
  let ?rt = "get_render_type env (fst (get_task_status env ts w))"
  consider (illegal) "''45'' \<in> set ?sub"
    | (fires) "''45'' \<notin> set ?sub" "rebuild_complete ?sub ?rt"
    | (idle) "''45'' \<notin> set ?sub" "\<not> rebuild_complete ?sub ?rt"
    by blast
  then show ?thesis
  proof cases
    case illegal
    from cc_body_illegal [OF this, of a dt t tr] illegal
    have "cc_after_task_completed_body env a dt t ts (w, tr) =
            (Inl AssertionError, (snd (get_task_status env ts w), tr @ GetTaskStatus ts # [])) \<and>
          filter is_get_task_status [] = [] \<and>
          (cc_fired (GetTaskStatus ts # []) t \<longleftrightarrow> rebuild_complete ?sub ?rt \<and> ''45'' \<notin> set ?sub)"
      by (simp add: cc_fired_def)
    then show ?thesis by blast
  next
    case idle
    from cc_body_idle [OF this, of a dt t tr] idle
    have "cc_after_task_completed_body env a dt t ts (w, tr) =
            (Inr False, (snd (get_task_status env ts w), tr @ GetTaskStatus ts # [])) \<and>
          filter is_get_task_status [] = [] \<and>
          (cc_fired (GetTaskStatus ts # []) t \<longleftrightarrow> rebuild_complete ?sub ?rt \<and> ''45'' \<notin> set ?sub)"
      by (simp add: cc_fired_def)
    then show ?thesis by blast
  next
    case fires
    from cc_body_fires [OF this, of a dt t tr]
    obtain r x w' cmds where
      b: "cc_after_task_completed_body env a dt t ts (w, tr) =
        (x, (w', tr @ GetTaskStatus ts # cmds @ [RunCcDownload [t] r]))"
      and c: "list_all is_run_cmd cmds" and x: "x \<noteq> Inl AssertionError" by blast
    have "filter is_get_task_status (cmds @ [RunCcDownload [t] r]) = []"
      using cmds_no_poll [OF c] by simp
    moreover have "cc_fired (GetTaskStatus ts # cmds @ [RunCcDownload [t] r]) t"
      by (simp add: cc_fired_def)
    ultimately show ?thesis using b fires x by blast
  qed
qed


lemma for_task_id_abort_trace:
  assumes ext: "\<forall>t ts st r st'. body t ts st = (r, st') \<longrightarrow> (\<exists>evs. snd st' = snd st @ evs)"
    and ab: "\<forall>t ts st st'. body t ts st = (Inl AssertionError, st') \<longrightarrow>
               snd st' = snd st @ [GetTaskStatus ts]"
  shows "for_task_id body i ts st = (Inl AssertionError, ts', st') \<Longrightarrow>
         \<exists>evs. snd st' = snd st @ evs @ [GetTaskStatus ts']"
  using assms
proof (induction body i ts st rule: for_task_id.induct)
  case (1 body i ts st)
  show ?case
  proof (cases "i < length ts")
    case False
    with "1.prems"(1) show ?thesis by (simp add: for_task_id.simps)
  next
    case True
    obtain x st1 where b: "body (ts ! i) ts st = (x, st1)" by (cases "body (ts ! i) ts st")
    show ?thesis
    proof (cases x)
      case (Inl e0)
      with True b "1.prems"(1) have e: "e0 = AssertionError" "ts' = ts" "st' = st1"
        by (simp_all add: for_task_id.simps)
      with b Inl have "body (ts ! i) ts st = (Inl AssertionError, st')" by simp
      with "1.prems"(3) have "snd st' = snd st @ [GetTaskStatus ts]" by blast
      with e have "snd st' = snd st @ [] @ [GetTaskStatus ts']" by simp
      then show ?thesis by blast
    next
      case (Inr removes)
      let ?ts1 = "if removes then remove1 (ts ! i) ts else ts"
      from True b Inr "1.prems"(1)
      have "for_task_id body (Suc i) ?ts1 st1 = (Inl AssertionError, ts', st')"
        by (simp add: for_task_id.simps)
      from "1.IH" [OF True b [symmetric] Inr this "1.prems"(2) "1.prems"(3)]
      obtain evs where 2: "snd st' = snd st1 @ evs @ [GetTaskStatus ts']" by blast
      from "1.prems"(2) b obtain evs0 where "snd st1 = snd st @ evs0" by blast
      with 2 have "snd st' = snd st @ (evs0 @ evs) @ [GetTaskStatus ts']" by simp
      then show ?thesis by blast
    qed
  qed
qed

lemma for_task_id_polls:
  assumes one: "\<forall>t ts st. \<exists>r w' evs. body t ts st = (r, (w', snd st @ GetTaskStatus ts # evs)) \<and>
                    filter is_get_task_status evs = []"
  shows "for_task_id body i ts st = (Inr (), ts', st') \<Longrightarrow> length ts' = length ts \<Longrightarrow>
         \<exists>evs. snd st' = snd st @ evs \<and>
           filter is_get_task_status evs = replicate (length ts - i) (GetTaskStatus ts)"
  using assms
proof (induction body i ts st rule: for_task_id.induct)
  case (1 body i ts st)
  show ?case
  proof (cases "i < length ts")
    case False
    with "1.prems"(1) have "st' = st" by (simp add: for_task_id.simps)
    with False show ?thesis by simp
  next
    case True
    obtain x st1 where b: "body (ts ! i) ts st = (x, st1)" by (cases "body (ts ! i) ts st")
    from "1.prems"(3) [rule_format, of "ts ! i" ts st] b obtain evs0 where
      t1: "snd st1 = snd st @ GetTaskStatus ts # evs0" and f0: "filter is_get_task_status evs0 = []"
      by auto
    show ?thesis
    proof (cases x)
      case (Inl e0)
      with True b "1.prems"(1) show ?thesis by (simp add: for_task_id.simps)
    next
      case (Inr removes)
      let ?ts1 = "if removes then remove1 (ts ! i) ts else ts"
      from True b Inr "1.prems"(1)
      have step: "for_task_id body (Suc i) ?ts1 st1 = (Inr (), ts', st')"
        by (simp add: for_task_id.simps)
      have nr: "\<not> removes"
      proof
        assume removes
        with True have "length ?ts1 < length ts" by (simp add: length_remove1)
        moreover from for_task_id_shrinks [OF step] have "length ts' \<le> length ?ts1" by simp
        ultimately show False using "1.prems"(2) by simp
      qed
      with step have step': "for_task_id body (Suc i) ts st1 = (Inr (), ts', st')" by simp
      from nr have eq: "?ts1 = ts" by simp
      from "1.IH" [OF True b [symmetric] Inr] step "1.prems"(2) "1.prems"(3) eq
      obtain evs where 2: "snd st' = snd st1 @ evs"
        and f: "filter is_get_task_status evs = replicate (length ts - Suc i) (GetTaskStatus ts)"
        by auto
      from 2 t1 have "snd st' = snd st @ (GetTaskStatus ts # evs0 @ evs)" by simp
      moreover have "filter is_get_task_status (GetTaskStatus ts # evs0 @ evs) =
          replicate (length ts - i) (GetTaskStatus ts)"
        using f f0 True by (simp add: Suc_diff_Suc replicate_Suc [symmetric] del: replicate_Suc)
      ultimately show ?thesis by blast
    qed
  qed
qed

section \<open>The completion tests and the status polls\<close>









text \<open>
  C7 as stated fails. \<open>download_block\<close> on the working set \<open>[1, 2, 3]\<close>; the first poll of
  the cycle reports \<open>'25'\<close>, every later poll \<open>'45'\<close>. In one cycle task 1 is downloaded
  (the command exits with 0) and removed, and the poll of the next visit raises the
  assertion failure: a transfer precedes the abort within the cycle.
\<close>

theorem transfer_precedes_abort:
  "for_task_id (download_block_body E_flip args0 (Literal ''block'')) 0 [1, 2, 3] (0, []) =
     (Inl AssertionError, [2, 3],
      (3, [GetTaskStatus [1, 2, 3],
           RunCmd [''download_path'', ''out'', ''1'' @ at_result, ''1048576'', ''true'',
                   ''output_bid''] 0,
           RunCcDownload [1] (Inr ()),
           GetTaskStatus [2, 3]]))"
  by code_simp

lemma block_body_ext:
  "\<forall>t ts st r st'. download_block_body env a dt t ts st = (r, st') \<longrightarrow>
     (\<exists>evs. snd st' = snd st @ evs)"
proof (intro allI impI)
  fix t ts st r st'
  assume h: "download_block_body env a dt t ts st = (r, st')"
  obtain w tr where st: "st = (w, tr)" by (cases st)
  from download_block_body_shape [of env a dt t ts w tr] h st
  show "\<exists>evs. snd st' = snd st @ evs" by auto
qed

lemma block_body_abort:
  "\<forall>t ts st st'. download_block_body env a dt t ts st = (Inl AssertionError, st') \<longrightarrow>
     snd st' = snd st @ [GetTaskStatus ts]"
proof (intro allI impI)
  fix t ts st st'
  assume h: "download_block_body env a dt t ts st = (Inl AssertionError, st')"
  obtain w tr where st: "st = (w, tr)" by (cases st)
  from download_block_body_shape [of env a dt t ts w tr] h st
  show "snd st' = snd st @ [GetTaskStatus ts]" by auto
qed

lemma cc_body_ext:
  "\<forall>t ts st r st'. cc_after_task_completed_body env a dt t ts st = (r, st') \<longrightarrow>
     (\<exists>evs. snd st' = snd st @ evs)"
proof (intro allI impI)
  fix t ts st r st'
  assume h: "cc_after_task_completed_body env a dt t ts st = (r, st')"
  obtain w tr where st: "st = (w, tr)" by (cases st)
  from cc_body_shape [of env a dt t ts w tr] h st
  show "\<exists>evs. snd st' = snd st @ evs" by auto
qed

lemma cc_body_abort:
  "\<forall>t ts st st'. cc_after_task_completed_body env a dt t ts st = (Inl AssertionError, st') \<longrightarrow>
     snd st' = snd st @ [GetTaskStatus ts]"
proof (intro allI impI)
  fix t ts st st'
  assume h: "cc_after_task_completed_body env a dt t ts st = (Inl AssertionError, st')"
  obtain w tr where st: "st = (w, tr)" by (cases st)
  from cc_body_shape [of env a dt t ts w tr] h st
  show "snd st' = snd st @ [GetTaskStatus ts]" by auto
qed

lemma block_body_one_poll:
  "\<forall>t ts st. \<exists>r w' evs. download_block_body env a dt t ts st =
        (r, (w', snd st @ GetTaskStatus ts # evs)) \<and> filter is_get_task_status evs = []"
proof -
  have "\<exists>r w' evs. download_block_body env a dt t ts st =
        (r, (w', snd st @ GetTaskStatus ts # evs)) \<and> filter is_get_task_status evs = []"
    for t ts st
  proof -
    obtain w tr where st: "st = (w, tr)" by (cases st)
    from download_block_body_shape [of env a dt t ts w tr] st show ?thesis by auto
  qed
  then show ?thesis by blast
qed

lemma cc_body_one_poll:
  "\<forall>t ts st. \<exists>r w' evs. cc_after_task_completed_body env a dt t ts st =
        (r, (w', snd st @ GetTaskStatus ts # evs)) \<and> filter is_get_task_status evs = []"
proof -
  have "\<exists>r w' evs. cc_after_task_completed_body env a dt t ts st =
        (r, (w', snd st @ GetTaskStatus ts # evs)) \<and> filter is_get_task_status evs = []"
    for t ts st
  proof -
    obtain w tr where st: "st = (w, tr)" by (cases st)
    from cc_body_shape [of env a dt t ts w tr] st show ?thesis by auto
  qed
  then show ?thesis by blast
qed

lemma for_task_id_first_raises:
  "ts \<noteq> [] \<Longrightarrow> body (ts ! 0) ts st = (Inl e, st') \<Longrightarrow>
   for_task_id body 0 ts st = (Inl e, ts, st')"
  by (simp add: for_task_id.simps)

lemma for_task_id_raises_at:
  "i < length ts \<Longrightarrow> body (ts ! i) ts st = (Inl e, st') \<Longrightarrow>
   for_task_id body i ts st = (Inl e, ts, st')"
  by (simp add: for_task_id.simps)

lemma for_task_id_ext:
  assumes ext: "\<forall>t ts st r st'. body t ts st = (r, st') \<longrightarrow> (\<exists>evs. snd st' = snd st @ evs)"
  shows "for_task_id body i ts st = (r, ts', st') \<Longrightarrow> \<exists>evs. snd st' = snd st @ evs"
  using assms
proof (induction body i ts st rule: for_task_id.induct)
  case (1 body i ts st)
  show ?case
  proof (cases "i < length ts")
    case False
    with "1.prems"(1) show ?thesis by (simp add: for_task_id.simps)
  next
    case True
    obtain x st1 where b: "body (ts ! i) ts st = (x, st1)" by (cases "body (ts ! i) ts st")
    from "1.prems"(2) b obtain evs0 where e0: "snd st1 = snd st @ evs0" by blast
    show ?thesis
    proof (cases x)
      case (Inl e0)
      with True b "1.prems"(1) have "st' = st1" by (simp add: for_task_id.simps)
      with e0 show ?thesis by blast
    next
      case (Inr removes)
      let ?ts1 = "if removes then remove1 (ts ! i) ts else ts"
      from True b Inr "1.prems"(1)
      have "for_task_id body (Suc i) ?ts1 st1 = (r, ts', st')"
        by (simp add: for_task_id.simps)
      from "1.IH" [OF True b [symmetric] Inr this "1.prems"(2)]
      obtain evs where "snd st' = snd st1 @ evs" by blast
      with e0 have "snd st' = snd st @ (evs0 @ evs)" by simp
      then show ?thesis by blast
    qed
  qed
qed

lemma download_block_while_abort_trace:
  "download_block_while fuel env a dt ts st = Some (Inl AssertionError, ts1, st1) \<Longrightarrow>
   \<exists>evs. snd st1 = snd st @ evs @ [GetTaskStatus ts1]"
proof (induction fuel arbitrary: ts st)
  case 0
  then show ?case by simp
next
  case (Suc fuel)
  show ?case
  proof (cases "ts = []")
    case True
    with Suc.prems show ?thesis by simp
  next
    case False
    obtain x ts' st' where c: "for_task_id (download_block_body env a dt) 0 ts st = (x, ts', st')"
      by (cases "for_task_id (download_block_body env a dt) 0 ts st")
    show ?thesis
    proof (cases x)
      case (Inl e)
      with False c Suc.prems have "e = AssertionError" "ts' = ts1" "st' = st1" by simp_all
      with c Inl for_task_id_abort_trace [OF block_body_ext block_body_abort,
          of env a dt 0 ts st ts1 st1]
      show ?thesis by simp
    next
      case (Inr u)
      with False c Suc.prems
      have "download_block_while fuel env a dt ts' st' = Some (Inl AssertionError, ts1, st1)"
        by simp
      from Suc.IH [OF this] obtain evs where 1: "snd st1 = snd st' @ evs @ [GetTaskStatus ts1]"
        by blast
      from for_task_id_ext [OF block_body_ext c] obtain evs0 where "snd st' = snd st @ evs0"
        by blast
      with 1 have "snd st1 = snd st @ (evs0 @ evs) @ [GetTaskStatus ts1]" by simp
      then show ?thesis by blast
    qed
  qed
qed

lemma cc_while_abort_trace:
  "auto_download_cc_after_task_completed fuel env a dt ts st =
     Some (Inl AssertionError, ts1, st1) \<Longrightarrow>
   \<exists>evs. snd st1 = snd st @ evs @ [GetTaskStatus ts1]"
proof (induction fuel arbitrary: ts st)
  case 0
  then show ?case by simp
next
  case (Suc fuel)
  show ?case
  proof (cases "ts = []")
    case True
    with Suc.prems show ?thesis by simp
  next
    case False
    obtain x ts' st' where
      c: "for_task_id (cc_after_task_completed_body env a dt) 0 ts st = (x, ts', st')"
      by (cases "for_task_id (cc_after_task_completed_body env a dt) 0 ts st")
    show ?thesis
    proof (cases x)
      case (Inl e)
      with False c Suc.prems have "e = AssertionError" "ts' = ts1" "st' = st1" by simp_all
      with c Inl for_task_id_abort_trace [OF cc_body_ext cc_body_abort,
          of env a dt 0 ts st ts1 st1]
      show ?thesis by simp
    next
      case (Inr u)
      with False c Suc.prems
      have "auto_download_cc_after_task_completed fuel env a dt ts' st' =
              Some (Inl AssertionError, ts1, st1)"
        by simp
      from Suc.IH [OF this] obtain evs where 1: "snd st1 = snd st' @ evs @ [GetTaskStatus ts1]"
        by blast
      from for_task_id_ext [OF cc_body_ext c] obtain evs0 where "snd st' = snd st @ evs0"
        by blast
      with 1 have "snd st1 = snd st @ (evs0 @ evs) @ [GetTaskStatus ts1]" by simp
      then show ?thesis by blast
    qed
  qed
qed

lemma download_block_abort_trace:
  "download_block fuel env a dt ts sp st = Some (Inl AssertionError, ts1, st1) \<Longrightarrow>
   \<exists>evs. snd st1 = snd st @ evs @ [GetTaskStatus ts1]"
proof -
  assume h: "download_block fuel env a dt ts sp st = Some (Inl AssertionError, ts1, st1)"
  show ?thesis
  proof (cases "check_params ts sp")
    case (Inl e)
    with h show ?thesis by (auto simp: download_block_def check_params_def split: if_splits)
  next
    case (Inr u)
    with h have "download_block_while fuel env a dt ts st = Some (Inl AssertionError, ts1, st1)"
      by (simp add: download_block_def)
    then show ?thesis by (rule download_block_while_abort_trace)
  qed
qed

lemma check_params_nonempty: "ts \<noteq> [] \<Longrightarrow> check_params ts sp = Inr ()"
  by (simp add: check_params_def)

text \<open>
  C7, amended. In \<open>download_block\<close> and \<open>auto_download_cc_after_task_completed\<close>, a poll
  whose sub-status list contains \<open>'45'\<close> aborts the run: the body raises the assertion
  failure with nothing done after the poll, the rest of the cycle (the \<open>for\<close> loop from any
  position \<open>i\<close>) ends with it at once, and when the poll is the first of a cycle the call
  itself ends with the assertion failure, the working set unchanged and the poll the only
  event. An error of a cycle is the result of the call, which runs no further cycle; a
  cycle without error is followed by the loop on the working set it leaves. And whenever a
  cycle or a call ends with the assertion failure, the last event is the poll of the
  working set as it then is: nothing is transferred between the poll that shows the code
  and the abort. Transfers of earlier visits of the same cycle may stand before it.
\<close>

theorem illegal_code_aborts_at_poll:
  "(''45'' \<in> set (get_sub_status env (fst (get_task_status env ts w))) \<longrightarrow>
      download_block_body env a dt t ts (w, tr) =
        (Inl AssertionError, (snd (get_task_status env ts w), tr @ [GetTaskStatus ts])) \<and>
      cc_after_task_completed_body env a dt t ts (w, tr) =
        (Inl AssertionError, (snd (get_task_status env ts w), tr @ [GetTaskStatus ts])) \<and>
      (i < length ts \<longrightarrow>
         for_task_id (download_block_body env a dt) i ts (w, tr) =
           (Inl AssertionError, ts, (snd (get_task_status env ts w), tr @ [GetTaskStatus ts])) \<and>
         for_task_id (cc_after_task_completed_body env a dt) i ts (w, tr) =
           (Inl AssertionError, ts, (snd (get_task_status env ts w), tr @ [GetTaskStatus ts]))) \<and>
      (ts \<noteq> [] \<longrightarrow>
         download_block_while (Suc fuel) env a dt ts (w, tr) =
           Some (Inl AssertionError, ts,
                 (snd (get_task_status env ts w), tr @ [GetTaskStatus ts])) \<and>
         download_block (Suc fuel) env a dt ts sp (w, tr) =
           Some (Inl AssertionError, ts,
                 (snd (get_task_status env ts w), tr @ [GetTaskStatus ts])) \<and>
         auto_download_cc_after_task_completed (Suc fuel) env a dt ts (w, tr) =
           Some (Inl AssertionError, ts,
                 (snd (get_task_status env ts w), tr @ [GetTaskStatus ts])))) \<and>
   (ts \<noteq> [] \<and> for_task_id (download_block_body env a dt) 0 ts st = (Inl e, ts3, st3) \<longrightarrow>
      download_block_while (Suc fuel) env a dt ts st = Some (Inl e, ts3, st3) \<and>
      download_block (Suc fuel) env a dt ts sp st = Some (Inl e, ts3, st3)) \<and>
   (ts \<noteq> [] \<and> for_task_id (cc_after_task_completed_body env a dt) 0 ts st = (Inl e, ts4, st4)
      \<longrightarrow> auto_download_cc_after_task_completed (Suc fuel) env a dt ts st =
            Some (Inl e, ts4, st4)) \<and>
   (ts \<noteq> [] \<and> for_task_id (download_block_body env a dt) 0 ts st = (Inr u, ts5, st5) \<longrightarrow>
      download_block_while (Suc fuel) env a dt ts st =
        download_block_while fuel env a dt ts5 st5) \<and>
   (ts \<noteq> [] \<and> for_task_id (cc_after_task_completed_body env a dt) 0 ts st = (Inr u, ts6, st6)
      \<longrightarrow> auto_download_cc_after_task_completed (Suc fuel) env a dt ts st =
            auto_download_cc_after_task_completed fuel env a dt ts6 st6) \<and>
   (for_task_id (download_block_body env a dt) 0 ts (w, tr) = (Inl AssertionError, ts1, (w1, tr1))
      \<longrightarrow> (\<exists>evs. tr1 = tr @ evs @ [GetTaskStatus ts1])) \<and>
   (for_task_id (cc_after_task_completed_body env a dt) 0 ts (w, tr) =
      (Inl AssertionError, ts2, (w2, tr2))
      \<longrightarrow> (\<exists>evs. tr2 = tr @ evs @ [GetTaskStatus ts2])) \<and>
   (download_block fuel env a dt ts sp (w, tr) = Some (Inl AssertionError, ts7, (w7, tr7))
      \<longrightarrow> (\<exists>evs. tr7 = tr @ evs @ [GetTaskStatus ts7])) \<and>
   (auto_download_cc_after_task_completed fuel env a dt ts (w, tr) =
      Some (Inl AssertionError, ts8, (w8, tr8))
      \<longrightarrow> (\<exists>evs. tr8 = tr @ evs @ [GetTaskStatus ts8]))"
proof -
  let ?S = "(snd (get_task_status env ts w), tr @ [GetTaskStatus ts])"
  have 1: "''45'' \<in> set (get_sub_status env (fst (get_task_status env ts w))) \<longrightarrow>
      download_block_body env a dt t ts (w, tr) = (Inl AssertionError, ?S) \<and>
      cc_after_task_completed_body env a dt t ts (w, tr) = (Inl AssertionError, ?S) \<and>
      (i < length ts \<longrightarrow>
         for_task_id (download_block_body env a dt) i ts (w, tr) = (Inl AssertionError, ts, ?S) \<and>
         for_task_id (cc_after_task_completed_body env a dt) i ts (w, tr) =
           (Inl AssertionError, ts, ?S)) \<and>
      (ts \<noteq> [] \<longrightarrow>
         download_block_while (Suc fuel) env a dt ts (w, tr) = Some (Inl AssertionError, ts, ?S) \<and>
         download_block (Suc fuel) env a dt ts sp (w, tr) = Some (Inl AssertionError, ts, ?S) \<and>
         auto_download_cc_after_task_completed (Suc fuel) env a dt ts (w, tr) =
           Some (Inl AssertionError, ts, ?S))"
  proof
    assume h: "''45'' \<in> set (get_sub_status env (fst (get_task_status env ts w)))"
    have b: "download_block_body env a dt t' ts (w, tr) = (Inl AssertionError, ?S)" for t'
      by (rule download_block_body_illegal [OF h])
    have c: "cc_after_task_completed_body env a dt t' ts (w, tr) = (Inl AssertionError, ?S)" for t'
      by (rule cc_body_illegal [OF h])
    have f: "i < length ts \<longrightarrow>
         for_task_id (download_block_body env a dt) i ts (w, tr) = (Inl AssertionError, ts, ?S) \<and>
         for_task_id (cc_after_task_completed_body env a dt) i ts (w, tr) =
           (Inl AssertionError, ts, ?S)"
      using b c by (simp add: for_task_id_raises_at)
    have g: "ts \<noteq> [] \<longrightarrow>
         download_block_while (Suc fuel) env a dt ts (w, tr) = Some (Inl AssertionError, ts, ?S) \<and>
         download_block (Suc fuel) env a dt ts sp (w, tr) = Some (Inl AssertionError, ts, ?S) \<and>
         auto_download_cc_after_task_completed (Suc fuel) env a dt ts (w, tr) =
           Some (Inl AssertionError, ts, ?S)"
    proof
      assume n: "ts \<noteq> []"
      then have l: "0 < length ts" by simp
      have "for_task_id (download_block_body env a dt) 0 ts (w, tr) = (Inl AssertionError, ts, ?S)"
        "for_task_id (cc_after_task_completed_body env a dt) 0 ts (w, tr) =
           (Inl AssertionError, ts, ?S)"
        using l b c by (simp_all add: for_task_id_raises_at)
      with n show "download_block_while (Suc fuel) env a dt ts (w, tr) = Some (Inl AssertionError, ts, ?S) \<and>
         download_block (Suc fuel) env a dt ts sp (w, tr) = Some (Inl AssertionError, ts, ?S) \<and>
         auto_download_cc_after_task_completed (Suc fuel) env a dt ts (w, tr) =
           Some (Inl AssertionError, ts, ?S)"
        by (simp add: download_block_def check_params_nonempty)
    qed
    show "download_block_body env a dt t ts (w, tr) = (Inl AssertionError, ?S) \<and>
      cc_after_task_completed_body env a dt t ts (w, tr) = (Inl AssertionError, ?S) \<and>
      (i < length ts \<longrightarrow>
         for_task_id (download_block_body env a dt) i ts (w, tr) = (Inl AssertionError, ts, ?S) \<and>
         for_task_id (cc_after_task_completed_body env a dt) i ts (w, tr) =
           (Inl AssertionError, ts, ?S)) \<and>
      (ts \<noteq> [] \<longrightarrow>
         download_block_while (Suc fuel) env a dt ts (w, tr) = Some (Inl AssertionError, ts, ?S) \<and>
         download_block (Suc fuel) env a dt ts sp (w, tr) = Some (Inl AssertionError, ts, ?S) \<and>
         auto_download_cc_after_task_completed (Suc fuel) env a dt ts (w, tr) =
           Some (Inl AssertionError, ts, ?S))"
      by (rule conjI [OF b conjI [OF c conjI [OF f g]]])
  qed
  have 2: "ts \<noteq> [] \<and> for_task_id (download_block_body env a dt) 0 ts st = (Inl e, ts3, st3) \<longrightarrow>
      download_block_while (Suc fuel) env a dt ts st = Some (Inl e, ts3, st3) \<and>
      download_block (Suc fuel) env a dt ts sp st = Some (Inl e, ts3, st3)"
    by (simp add: download_block_def check_params_nonempty)
  have 3: "ts \<noteq> [] \<and> for_task_id (cc_after_task_completed_body env a dt) 0 ts st = (Inl e, ts4, st4)
      \<longrightarrow> auto_download_cc_after_task_completed (Suc fuel) env a dt ts st =
            Some (Inl e, ts4, st4)"
    by simp
  have 4: "ts \<noteq> [] \<and> for_task_id (download_block_body env a dt) 0 ts st = (Inr u, ts5, st5) \<longrightarrow>
      download_block_while (Suc fuel) env a dt ts st =
        download_block_while fuel env a dt ts5 st5"
    by simp
  have 5: "ts \<noteq> [] \<and> for_task_id (cc_after_task_completed_body env a dt) 0 ts st = (Inr u, ts6, st6)
      \<longrightarrow> auto_download_cc_after_task_completed (Suc fuel) env a dt ts st =
            auto_download_cc_after_task_completed fuel env a dt ts6 st6"
    by simp
  have 6: "for_task_id (download_block_body env a dt) 0 ts (w, tr) =
      (Inl AssertionError, ts1, (w1, tr1)) \<longrightarrow> (\<exists>evs. tr1 = tr @ evs @ [GetTaskStatus ts1])"
    using for_task_id_abort_trace [OF block_body_ext block_body_abort,
            of env a dt 0 ts "(w, tr)" ts1 "(w1, tr1)"] by simp
  have 7: "for_task_id (cc_after_task_completed_body env a dt) 0 ts (w, tr) =
      (Inl AssertionError, ts2, (w2, tr2)) \<longrightarrow> (\<exists>evs. tr2 = tr @ evs @ [GetTaskStatus ts2])"
    using for_task_id_abort_trace [OF cc_body_ext cc_body_abort,
            of env a dt 0 ts "(w, tr)" ts2 "(w2, tr2)"] by simp
  have 8: "download_block fuel env a dt ts sp (w, tr) = Some (Inl AssertionError, ts7, (w7, tr7))
      \<longrightarrow> (\<exists>evs. tr7 = tr @ evs @ [GetTaskStatus ts7])"
    using download_block_abort_trace [of fuel env a dt ts sp "(w, tr)" ts7 "(w7, tr7)"] by simp
  have 9: "auto_download_cc_after_task_completed fuel env a dt ts (w, tr) =
      Some (Inl AssertionError, ts8, (w8, tr8))
      \<longrightarrow> (\<exists>evs. tr8 = tr @ evs @ [GetTaskStatus ts8])"
    using cc_while_abort_trace [of fuel env a dt ts "(w, tr)" ts8 "(w8, tr8)"] by simp
  show ?thesis
    by (rule conjI [OF 1 conjI [OF 2 conjI [OF 3 conjI [OF 4 conjI [OF 5 conjI [OF 6
          conjI [OF 7 conjI [OF 8 9]]]]]]]])
qed

theorem illegal_code_aborts_at_poll_witness:
  "''45'' \<in> set (get_sub_status E_illegal (fst (get_task_status E_illegal [1, 2] 0))) \<and>
   download_block (Suc 0) E_illegal args0 (Literal ''block'') [1, 2] NoPath (0, []) =
     Some (Inl AssertionError, [1, 2],
           (snd (get_task_status E_illegal [1, 2] 0), [] @ [GetTaskStatus [1, 2]])) \<and>
   auto_download_cc_after_task_completed (Suc 0) E_illegal args0 (Literal ''block'') [1, 2] (0, []) =
     Some (Inl AssertionError, [1, 2],
           (snd (get_task_status E_illegal [1, 2] 0), [] @ [GetTaskStatus [1, 2]])) \<and>
   download_block 1 E_flip args0 (Literal ''block'') [1, 2, 3] NoPath (0, []) =
     Some (Inl AssertionError, [2, 3],
      (3, [GetTaskStatus [1, 2, 3],
           RunCmd [''download_path'', ''out'', ''1'' @ at_result, ''1048576'', ''true'',
                   ''output_bid''] 0,
           RunCcDownload [1] (Inr ()),
           GetTaskStatus [2, 3]])) \<and>
   (\<exists>evs. [GetTaskStatus [1, 2, 3],
           RunCmd [''download_path'', ''out'', ''1'' @ at_result, ''1048576'', ''true'',
                   ''output_bid''] 0,
           RunCcDownload [1] (Inr ()),
           GetTaskStatus [2, 3]] = [] @ evs @ [GetTaskStatus [2, 3]])"
proof -
  have h: "''45'' \<in> set (get_sub_status E_illegal (fst (get_task_status E_illegal [1, 2] 0)))"
    by code_simp
  have n: "[1, 2 :: task_id] \<noteq> []" by simp
  note i = illegal_code_aborts_at_poll
             [where env = E_illegal and ts = "[1, 2]" and w = 0 and tr = "[]" and a = args0
                and dt = "Literal ''block''" and fuel = 0 and sp = NoPath,
              THEN conjunct1, THEN mp, OF h]
  note c = i [THEN conjunct2, THEN conjunct2, THEN conjunct2, THEN mp, OF n]
  have f: "download_block 1 E_flip args0 (Literal ''block'') [1, 2, 3] NoPath (0, []) =
     Some (Inl AssertionError, [2, 3],
      (3, [GetTaskStatus [1, 2, 3],
           RunCmd [''download_path'', ''out'', ''1'' @ at_result, ''1048576'', ''true'',
                   ''output_bid''] 0,
           RunCcDownload [1] (Inr ()),
           GetTaskStatus [2, 3]]))"
    by code_simp
  note e = illegal_code_aborts_at_poll
             [where env = E_flip and ts = "[1, 2, 3]" and w = 0 and tr = "[]" and a = args0
                and dt = "Literal ''block''" and fuel = 1 and sp = NoPath,
              THEN conjunct2, THEN conjunct2, THEN conjunct2, THEN conjunct2, THEN conjunct2,
              THEN conjunct2, THEN conjunct2, THEN conjunct1, THEN mp, OF f]
  show ?thesis
    by (rule conjI [OF h conjI [OF c [THEN conjunct2, THEN conjunct1]
          conjI [OF c [THEN conjunct2, THEN conjunct2] conjI [OF f e]]]])
qed

text \<open>
  C9 as stated fails. \<open>download_block\<close> on the working set \<open>[1, 2]\<close>, no poll reporting
  \<open>'25'\<close> or \<open>'45'\<close>: one cycle calls \<open>get_task_status\<close> twice, once for each task id.
\<close>

theorem download_block_polls_per_task:
  "for_task_id (download_block_body E_idle args0 (Literal ''block'')) 0 [1, 2] (0, []) =
     (Inr (), [1, 2], (2, [GetTaskStatus [1, 2], GetTaskStatus [1, 2]]))"
  by code_simp

text \<open>
  C9, amended. In \<open>download_block\<close> and \<open>auto_download_cc_after_task_completed\<close>, every
  execution of the loop body calls \<open>get_task_status\<close> exactly once, first, with the whole
  current working set; so a cycle makes one call for each task id it visits, and a cycle
  that ends normally without removing an id makes as many calls as the working set has
  ids, each with that working set.
\<close>

theorem status_polled_once_per_visit:
  "(\<exists>r w' evs. download_block_body env a dt t ts (w, tr) =
        (r, (w', tr @ GetTaskStatus ts # evs)) \<and> filter is_get_task_status evs = []) \<and>
   (\<exists>r w' evs. cc_after_task_completed_body env a dt t ts (w, tr) =
        (r, (w', tr @ GetTaskStatus ts # evs)) \<and> filter is_get_task_status evs = []) \<and>
   (for_task_id (download_block_body env a dt) 0 ts (w, tr) = (Inr (), ts1, (w1, tr1)) \<and>
      length ts1 = length ts \<longrightarrow>
      (\<exists>evs. tr1 = tr @ evs \<and>
         filter is_get_task_status evs = replicate (length ts) (GetTaskStatus ts))) \<and>
   (for_task_id (cc_after_task_completed_body env a dt) 0 ts (w, tr) = (Inr (), ts2, (w2, tr2)) \<and>
      length ts2 = length ts \<longrightarrow>
      (\<exists>evs. tr2 = tr @ evs \<and>
         filter is_get_task_status evs = replicate (length ts) (GetTaskStatus ts)))"
proof -
  have 1: "\<exists>r w' evs. download_block_body env a dt t ts (w, tr) =
        (r, (w', tr @ GetTaskStatus ts # evs)) \<and> filter is_get_task_status evs = []"
    using download_block_body_shape [of env a dt t ts w tr] by blast
  have 2: "\<exists>r w' evs. cc_after_task_completed_body env a dt t ts (w, tr) =
        (r, (w', tr @ GetTaskStatus ts # evs)) \<and> filter is_get_task_status evs = []"
    using cc_body_shape [of env a dt t ts w tr] by blast
  have 3: "for_task_id (download_block_body env a dt) 0 ts (w, tr) = (Inr (), ts1, (w1, tr1)) \<and>
      length ts1 = length ts \<longrightarrow>
      (\<exists>evs. tr1 = tr @ evs \<and>
         filter is_get_task_status evs = replicate (length ts) (GetTaskStatus ts))"
    using for_task_id_polls [OF block_body_one_poll, of env a dt 0 ts "(w, tr)" ts1 "(w1, tr1)"]
    by simp
  have 4: "for_task_id (cc_after_task_completed_body env a dt) 0 ts (w, tr) =
      (Inr (), ts2, (w2, tr2)) \<and> length ts2 = length ts \<longrightarrow>
      (\<exists>evs. tr2 = tr @ evs \<and>
         filter is_get_task_status evs = replicate (length ts) (GetTaskStatus ts))"
    using for_task_id_polls [OF cc_body_one_poll, of env a dt 0 ts "(w, tr)" ts2 "(w2, tr2)"]
    by simp
  show ?thesis by (rule conjI [OF 1 conjI [OF 2 conjI [OF 3 4]]])
qed

theorem status_polled_once_per_visit_witness:
  "for_task_id (download_block_body E_idle args0 (Literal ''block'')) 0 [1, 2] (0, []) =
     (Inr (), [1, 2], (2, [GetTaskStatus [1, 2], GetTaskStatus [1, 2]])) \<and>
   length [1, 2 :: task_id] = length [1, 2 :: task_id] \<and>
   (\<exists>evs. [GetTaskStatus [1, 2], GetTaskStatus [1, 2]] = [] @ evs \<and>
      filter is_get_task_status evs = replicate (length [1, 2 :: task_id]) (GetTaskStatus [1, 2])) \<and>
   for_task_id (cc_after_task_completed_body E_idle args0 (Literal ''block'')) 0 [1, 2] (0, []) =
     (Inr (), [1, 2], (2, [GetTaskStatus [1, 2], GetTaskStatus [1, 2]]))"
proof -
  have f: "for_task_id (download_block_body E_idle args0 (Literal ''block'')) 0 [1, 2] (0, []) =
     (Inr (), [1, 2], (2, [GetTaskStatus [1, 2], GetTaskStatus [1, 2]]))"
    by code_simp
  have g: "for_task_id (cc_after_task_completed_body E_idle args0 (Literal ''block'')) 0 [1, 2] (0, []) =
     (Inr (), [1, 2], (2, [GetTaskStatus [1, 2], GetTaskStatus [1, 2]]))"
    by code_simp
  have l: "length [1, 2 :: task_id] = length [1, 2 :: task_id]" by simp
  note e = status_polled_once_per_visit
             [where env = E_idle and ts = "[1, 2]" and w = 0 and tr = "[]" and a = args0
                and dt = "Literal ''block''", THEN conjunct2, THEN conjunct2, THEN conjunct1,
              THEN mp, OF conjI [OF f l]]
  show ?thesis
    by (rule conjI [OF f conjI [OF l conjI [OF e g]]])
qed

section \<open>Transfer failures in the loops that do not catch\<close>

















lemma after_task_completed_unroll:
  "ts \<noteq> [] \<Longrightarrow> for_task_id (after_task_completed_body env a) 0 ts st = (Inl e, ts', st') \<Longrightarrow>
   auto_download_after_task_completed (Suc fuel) env a ts st = Some (Inl e, ts', st')"
  by simp

lemma cc_after_task_completed_unroll:
  "ts \<noteq> [] \<Longrightarrow> for_task_id (cc_after_task_completed_body env a dt) 0 ts st = (Inl e, ts', st') \<Longrightarrow>
   auto_download_cc_after_task_completed (Suc fuel) env a dt ts st = Some (Inl e, ts', st')"
  by simp







end
